theory Spec2Isabelle
  imports Complex_Main "HOL-Library.AList" "HOL-Library.Char_ord" "HOL-Library.List_Lexorder"
begin

section \<open>The network graph component of nengo\_viz (components/netgraph.py)\<close>

subsection \<open>Objects of the network model\<close>

text \<open>
  Python objects are compared by identity (\<open>network is self.viz.model\<close>, dictionary keys
  of \<open>nengo.Config\<close>), so an object is its class together with a reference. A network's
  child lists hold references, which lets two networks hold the same sub-network and lets
  a network hold one of its own ancestors.
\<close>

type_synonym ref = nat

datatype obj = Ensemble ref | Node ref | Network ref | Connection ref

record network =
  ensembles :: "ref list"
  nodes :: "ref list"
  networks :: "ref list"
  connections :: "ref list"

record connection =
  pre_obj :: obj
  post_obj :: obj

text \<open>
  Values decoded from a client message by \<open>json.loads\<close>. A finite Python float is a
  \<open>JNum\<close>; \<open>JNonFinite\<close> is one of the floats \<open>inf\<close>, \<open>-inf\<close> and \<open>nan\<close>, which
  \<open>json.loads\<close> decodes from \<open>Infinity\<close>, \<open>-Infinity\<close> and \<open>NaN\<close>.
\<close>

datatype json =
    JNull
  | JBool bool
  | JNum real
  | JNonFinite
  | JStr string
  | JArr "json list"
  | JObj "(string \<times> json) list"

text \<open>
  What the component reads from its surroundings (\<open>self.viz\<close>, \<open>self.viz.viz\<close>, the
  interpreter): the root network \<open>viz.model\<close>, the attributes of every network and
  connection, \<open>get_uid\<close>, \<open>get_label\<close>, the optional \<open>filename\<close>, the script's
  \<open>locals\<close> (a uid is an expression naming its object there), the names that are bound
  to something else when the persisted text is executed (Python's builtins),
  \<open>json.loads\<close>, and the decimal text of \<open>id(conn)\<close>.
\<close>

record viz =
  model :: ref
  nets :: "ref \<Rightarrow> network"
  conns :: "ref \<Rightarrow> connection"
  get_uid :: "obj \<Rightarrow> string"
  get_label :: "obj \<Rightarrow> string"
  filename :: "string option"
  locals :: "string \<rightharpoonup> obj"
  builtins :: "string \<Rightarrow> bool"
  json_loads :: "string \<Rightarrow> json option"
  id_str :: "ref \<Rightarrow> string"

datatype error =
    IndexError | KeyError | AttributeError | TypeError | ValueError | NameError | IOError

subsection \<open>Config: the layout store\<close>

text \<open>
  \<open>Config.__init__\<close> gives ensembles and nodes the parameters \<open>pos\<close> and \<open>size\<close>
  (default \<open>None\<close>) and networks \<open>pos\<close>, \<open>size\<close> and \<open>expanded\<close> (default \<open>False\<close>).
  \<open>config[obj]\<close> creates the entry of an object on first access, so the store is a total
  function whose unset entries are the default one.
\<close>

record layout_entry =
  pos :: "(json \<times> json) option"
  size_p :: "(json \<times> json) option"
  expanded :: bool

type_synonym config = "obj \<Rightarrow> layout_entry"

definition default_entry :: layout_entry where
  "default_entry = \<lparr>pos = None, size_p = None, expanded = False\<rparr>"

definition Config :: config where
  "Config = (\<lambda>_. default_entry)"

text \<open>
  Assignments \<open>config[obj].param = v\<close>. \<open>nengo.Config\<close> raises \<open>KeyError\<close> for an object
  whose class was not set up with \<open>configures\<close> (a connection) and \<open>AttributeError\<close> for a
  parameter the class was not given (\<open>expanded\<close> of an ensemble or node). The parameters
  \<open>pos\<close> and \<open>size\<close> are made with \<open>Parameter(None)\<close>, which is not optional: \<open>None\<close> is
  their value while unset, and assigning \<open>None\<close> raises \<open>ValueError\<close>.
\<close>

fun set_pos :: "obj \<Rightarrow> (json \<times> json) option \<Rightarrow> config \<Rightarrow> error + config" where
  "set_pos (Connection c) v cfg = Inl KeyError"
| "set_pos ob None cfg = Inl ValueError"
| "set_pos ob (Some p) cfg = Inr (cfg(ob := (cfg ob)\<lparr>pos := Some p\<rparr>))"

fun set_size :: "obj \<Rightarrow> (json \<times> json) option \<Rightarrow> config \<Rightarrow> error + config" where
  "set_size (Connection c) v cfg = Inl KeyError"
| "set_size ob None cfg = Inl ValueError"
| "set_size ob (Some s) cfg = Inr (cfg(ob := (cfg ob)\<lparr>size_p := Some s\<rparr>))"

fun set_expanded :: "obj \<Rightarrow> bool \<Rightarrow> config \<Rightarrow> error + config" where
  "set_expanded (Connection c) v cfg = Inl KeyError"
| "set_expanded (Network n) v cfg = Inr (cfg(Network n := (cfg (Network n))\<lparr>expanded := v\<rparr>))"
| "set_expanded ob v cfg = Inl AttributeError"

text \<open>
  A line \<open>config[<uid>].<param>=<value>\<close> of the persisted text, kept as the uid, the
  parameter and the value it was written from. \<open>%s\<close> writes a value as its \<open>repr\<close>,
  which the Python interpreter reads back as that value, except for the floats \<open>inf\<close>,
  \<open>-inf\<close> and \<open>nan\<close>: they are written as the names \<open>inf\<close> and \<open>nan\<close> (see
  \<open>exec_line\<close>).
\<close>

datatype line =
    SetPos string "(json \<times> json) option"
  | SetSize string "(json \<times> json) option"
  | SetExpanded string bool

fun dump_item :: "config \<Rightarrow> string \<times> obj \<Rightarrow> line list" where
  "dump_item cfg (uid, Ensemble e) =
     [SetPos uid (pos (cfg (Ensemble e))), SetSize uid (size_p (cfg (Ensemble e)))]"
| "dump_item cfg (uid, Node n) =
     [SetPos uid (pos (cfg (Node n))), SetSize uid (size_p (cfg (Node n)))]"
| "dump_item cfg (uid, Network n) =
     [SetPos uid (pos (cfg (Network n))), SetSize uid (size_p (cfg (Network n))),
      SetExpanded uid (expanded (cfg (Network n)))]"
| "dump_item cfg (uid, Connection c) = []"

text \<open>\<open>Config.dumps\<close>: the items of \<open>uids\<close> sorted by uid, one line per parameter.\<close>

definition dumps :: "config \<Rightarrow> (string \<times> obj) list \<Rightarrow> line list" where
  "dumps cfg uids = concat (map (dump_item cfg) (sort_key fst uids))"

subsection \<open>NetGraph: the state of one session\<close>

text \<open>Messages written to the client (\<open>client.write(json.dumps(info))\<close>), by their fields.\<close>

datatype message_out =
    is_CreateObject: CreateObject (m_uid: string) (m_label: string) (m_pos: "json \<times> json") (m_type: string)
      (m_size: "json \<times> json") (m_parent: "string option") (m_expanded: "bool option")
  | CreateConnection (c_uid: string) (c_pre: "string list") (c_post: "string list")
      (c_parent: "string option")
  | PanMsg "json \<times> json"
  | ZoomMsg json

datatype printed =
    ReceivedMessage string
  | PanTo json json
  | ZoomTo json

text \<open>
  The fields of \<open>NetGraph\<close> (\<open>config\<close>, \<open>to_be_expanded\<close>, \<open>uids\<close>, \<open>parents\<close>,
  \<open>networks_to_search\<close>) and what the component writes to or draws from: the messages
  sent to the client, the files written, standard output and the generator behind
  \<open>random.uniform\<close>. The dictionary \<open>uids\<close> is an association list with distinct keys,
  since \<open>dumps\<close> enumerates it. \<open>searched\<close> is not a field of the source: it records, in
  order, every network that \<open>get_parents\<close> takes from \<open>networks_to_search\<close>.
\<close>

record netgraph =
  config :: config
  to_be_expanded :: "obj list"
  uids :: "(string \<times> obj) list"
  parents :: "string \<rightharpoonup> string"
  networks_to_search :: "ref list"
  client :: "message_out list"
  files :: "string \<rightharpoonup> line list"
  stdout :: "printed list"
  rng :: "nat \<Rightarrow> real"
  searched :: "ref list"

text \<open>\<open>NetGraph.__init__\<close> with a given config.\<close>

definition init :: "viz \<Rightarrow> config \<Rightarrow> (string \<rightharpoonup> line list) \<Rightarrow> (nat \<Rightarrow> real) \<Rightarrow> netgraph" where
  "init V cfg fs r =
     \<lparr>config = cfg, to_be_expanded = [Network (model V)], uids = [], parents = Map.empty,
      networks_to_search = [model V], client = [], files = fs, stdout = [], rng = r,
      searched = []\<rparr>"

text \<open>\<open>save_config\<close>. \<open>filename + '.cfg'\<close> raises \<open>TypeError\<close> when the filename is \<open>None\<close>.\<close>

definition save_config :: "viz \<Rightarrow> netgraph \<Rightarrow> (error + unit) \<times> netgraph" where
  "save_config V st =
     (case filename V of
        None \<Rightarrow> (Inl TypeError, st)
      | Some f \<Rightarrow> (Inr (), st\<lparr>files := (files st)(f @ ''.cfg'' \<mapsto> dumps (config st) (uids st))\<rparr>))"

subsection \<open>get\_parents\<close>

text \<open>
  The body of the first loop of \<open>get_parents\<close> for the network taken from the queue: the
  parent of every node, ensemble and sub-network (in this order) becomes the network's
  uid, and the sub-networks are appended to the queue.
\<close>

definition index_children :: "viz \<Rightarrow> ref \<Rightarrow> (string \<rightharpoonup> string) \<Rightarrow> (string \<rightharpoonup> string)" where
  "index_children V net ps =
     (let net_uid = get_uid V (Network net);
          ps1 = fold (\<lambda>n p. p(get_uid V (Node n) \<mapsto> net_uid)) (nodes (nets V net)) ps;
          ps2 = fold (\<lambda>e p. p(get_uid V (Ensemble e) \<mapsto> net_uid)) (ensembles (nets V net)) ps1
      in fold (\<lambda>n p. p(get_uid V (Network n) \<mapsto> net_uid)) (networks (nets V net)) ps2)"

text \<open>
  \<open>while uid not in self.parents\<close>: \<open>pop(0)\<close> of an empty list raises \<open>IndexError\<close>. The
  loop need not end, so not returning is the value \<open>None\<close>.
\<close>

partial_function (option) search_parents ::
  "viz \<Rightarrow> string \<Rightarrow> netgraph \<Rightarrow> ((error + unit) \<times> netgraph) option" where
  "search_parents V uid st =
     (if parents st uid \<noteq> None then Some (Inr (), st)
      else case networks_to_search st of
             [] \<Rightarrow> Some (Inl IndexError, st)
           | net # rest \<Rightarrow>
               search_parents V uid
                 (st\<lparr>parents := index_children V net (parents st),
                     networks_to_search := rest @ networks (nets V net),
                     searched := searched st @ [net]\<rparr>))"

text \<open>\<open>while parents[-1] in self.parents: parents.append(self.parents[parents[-1]])\<close>\<close>

partial_function (option) walk_parents ::
  "(string \<rightharpoonup> string) \<Rightarrow> string list \<Rightarrow> string list option" where
  "walk_parents ps chain =
     (case ps (last chain) of
        None \<Rightarrow> Some chain
      | Some p \<Rightarrow> walk_parents ps (chain @ [p]))"

definition get_parents ::
  "viz \<Rightarrow> string \<Rightarrow> netgraph \<Rightarrow> ((error + string list) \<times> netgraph) option" where
  "get_parents V uid st =
     (case search_parents V uid st of
        None \<Rightarrow> None
      | Some (Inl e, st1) \<Rightarrow> Some (Inl e, st1)
      | Some (Inr u, st1) \<Rightarrow>
          (case walk_parents (parents st1) [uid] of
             None \<Rightarrow> None
           | Some chain \<Rightarrow> Some (Inr chain, st1)))"

subsection \<open>Expansion\<close>

text \<open>
  \<open>random.uniform(0, 1)\<close> is \<open>0 + (1 - 0) * random()\<close>: the next value of the generator.
\<close>

definition uniform01 :: "netgraph \<Rightarrow> real \<times> netgraph" where
  "uniform01 st = (rng st 0, st\<lparr>rng := (\<lambda>i. rng st (Suc i))\<rparr>)"

text \<open>
  \<open>create_object\<close>, called by \<open>expand_network\<close> on the members of a network's
  \<open>ensembles\<close>, \<open>nodes\<close> and \<open>networks\<close>, whose classes are configured, so that
  \<open>self.config[obj]\<close> does not raise.
\<close>

definition create_object ::
  "viz \<Rightarrow> obj \<Rightarrow> string \<Rightarrow> string option \<Rightarrow> netgraph \<Rightarrow> netgraph" where
  "create_object V ob type parent st =
     (let (p, st1) =
            (case pos (config st ob) of
               None \<Rightarrow>
                 (let (x, sa) = uniform01 st;
                      (y, sb) = uniform01 sa;
                      p = (JNum x, JNum y)
                  in (p, sb\<lparr>config := (config sb)(ob := (config sb ob)\<lparr>pos := Some p\<rparr>)\<rparr>))
             | Some p \<Rightarrow> (p, st));
          (s, st2) =
            (case size_p (config st1 ob) of
               None \<Rightarrow>
                 (let s = (JNum (1 / 10), JNum (1 / 10))
                  in (s, st1\<lparr>config := (config st1)(ob := (config st1 ob)\<lparr>size_p := Some s\<rparr>)\<rparr>))
             | Some s \<Rightarrow> (s, st1));
          label = get_label V ob;
          uid = get_uid V ob;
          st3 = st2\<lparr>uids := AList.update uid ob (uids st2)\<rparr>;
          info = CreateObject uid label p type s parent
                   (if type = ''net'' then Some (expanded (config st3 ob)) else None)
      in st3\<lparr>client := client st3 @ [info]\<rparr>)"

text \<open>\<open>create_connection\<close>; \<open>[:-1]\<close> is \<open>butlast\<close>.\<close>

definition create_connection ::
  "viz \<Rightarrow> ref \<Rightarrow> string option \<Rightarrow> netgraph \<Rightarrow> ((error + unit) \<times> netgraph) option" where
  "create_connection V conn parent st =
     (let pre = get_uid V (pre_obj (conns V conn));
          post = get_uid V (post_obj (conns V conn));
          uid = ''conn_'' @ id_str V conn;
          st1 = st\<lparr>uids := AList.update uid (Connection conn) (uids st)\<rparr>
      in case get_parents V pre st1 of
           None \<Rightarrow> None
         | Some (Inl e, st2) \<Rightarrow> Some (Inl e, st2)
         | Some (Inr pres, st2) \<Rightarrow>
             (case get_parents V post st2 of
                None \<Rightarrow> None
              | Some (Inl e, st3) \<Rightarrow> Some (Inl e, st3)
              | Some (Inr posts, st3) \<Rightarrow>
                  Some (Inr (),
                    st3\<lparr>client := client st3 @
                          [CreateConnection uid (butlast pres) (butlast posts) parent]\<rparr>)))"

text \<open>\<open>for conn in network.connections: self.create_connection(client, conn, parent=parent)\<close>\<close>

fun create_connections ::
  "viz \<Rightarrow> ref list \<Rightarrow> string option \<Rightarrow> netgraph \<Rightarrow> ((error + unit) \<times> netgraph) option" where
  "create_connections V [] parent st = Some (Inr (), st)"
| "create_connections V (c # cs) parent st =
     (case create_connection V c parent st of
        None \<Rightarrow> None
      | Some (Inl e, s) \<Rightarrow> Some (Inl e, s)
      | Some (Inr u, s) \<Rightarrow> create_connections V cs parent s)"

text \<open>
  \<open>expand_network\<close>. The queue \<open>to_be_expanded\<close> can hold any registered object
  (\<open>act_expand\<close> does not look at its class); one that is not a network has no
  \<open>ensembles\<close> attribute.
\<close>

fun expand_network :: "viz \<Rightarrow> obj \<Rightarrow> netgraph \<Rightarrow> ((error + unit) \<times> netgraph) option" where
  "expand_network V (Network c) st =
     (let parent = (if c = model V then None else Some (get_uid V (Network c)));
          st1 = fold (\<lambda>e. create_object V (Ensemble e) ''ens'' parent) (ensembles (nets V c)) st;
          st2 = fold (\<lambda>n. create_object V (Node n) ''node'' parent) (nodes (nets V c)) st1;
          st3 = fold (\<lambda>n. create_object V (Network n) ''net'' parent) (networks (nets V c)) st2
      in case create_connections V (connections (nets V c)) parent st3 of
           None \<Rightarrow> None
         | Some (Inl e, st4) \<Rightarrow> Some (Inl e, st4)
         | Some (Inr u, st4) \<Rightarrow>
             Some (Inr (),
               st4\<lparr>config := (config st4)(Network c := (config st4 (Network c))\<lparr>expanded := True\<rparr>)\<rparr>))"
| "expand_network V ob st = Some (Inl AttributeError, st)"

definition send_pan_and_zoom :: "viz \<Rightarrow> netgraph \<Rightarrow> netgraph" where
  "send_pan_and_zoom V st =
     (let pan = (case pos (config st (Network (model V))) of
                   None \<Rightarrow> (JNum 0, JNum 0) | Some p \<Rightarrow> p);
          zoom = (case size_p (config st (Network (model V))) of
                    None \<Rightarrow> JNum 1 | Some z \<Rightarrow> fst z)
      in st\<lparr>client := client st @ [PanMsg pan, ZoomMsg zoom]\<rparr>)"

text \<open>\<open>update_client\<close>: one synchronisation tick (the lock is not modelled).\<close>

definition update_client :: "viz \<Rightarrow> netgraph \<Rightarrow> ((error + unit) \<times> netgraph) option" where
  "update_client V st =
     (case to_be_expanded st of
        [] \<Rightarrow> Some (Inr (), st)
      | network # rest \<Rightarrow>
          (case expand_network V network (st\<lparr>to_be_expanded := rest\<rparr>) of
             None \<Rightarrow> None
           | Some (Inl e, s) \<Rightarrow> Some (Inl e, s)
           | Some (Inr u, s) \<Rightarrow>
               Some (Inr (), if network = Network (model V) then send_pan_and_zoom V s else s)))"

subsection \<open>Client actions\<close>

text \<open>
  \<open>self.uids[uid]\<close> with a value decoded from JSON: a list or an object is unhashable
  (\<open>TypeError\<close>), and a key that is not in the dictionary raises \<open>KeyError\<close>.
\<close>

fun uids_lookup :: "(string \<times> obj) list \<Rightarrow> json \<Rightarrow> error + obj" where
  "uids_lookup us (JStr s) = (case map_of us s of None \<Rightarrow> Inl KeyError | Some ob \<Rightarrow> Inr ob)"
| "uids_lookup us (JArr xs) = Inl TypeError"
| "uids_lookup us (JObj kvs) = Inl TypeError"
| "uids_lookup us v = Inl KeyError"

definition act_expand :: "viz \<Rightarrow> json \<Rightarrow> netgraph \<Rightarrow> (error + unit) \<times> netgraph" where
  "act_expand V uid st =
     (case uids_lookup (uids st) uid of
        Inl e \<Rightarrow> (Inl e, st)
      | Inr net \<Rightarrow>
          (let st1 = st\<lparr>to_be_expanded := to_be_expanded st @ [net]\<rparr>
           in case set_expanded net True (config st1) of
                Inl e \<Rightarrow> (Inl e, st1)
              | Inr cfg \<Rightarrow> save_config V (st1\<lparr>config := cfg\<rparr>)))"

definition act_collapse :: "viz \<Rightarrow> json \<Rightarrow> netgraph \<Rightarrow> (error + unit) \<times> netgraph" where
  "act_collapse V uid st =
     (case uids_lookup (uids st) uid of
        Inl e \<Rightarrow> (Inl e, st)
      | Inr net \<Rightarrow>
          (case set_expanded net False (config st) of
             Inl e \<Rightarrow> (Inl e, st)
           | Inr cfg \<Rightarrow> save_config V (st\<lparr>config := cfg\<rparr>)))"

definition act_pan :: "viz \<Rightarrow> json \<Rightarrow> json \<Rightarrow> netgraph \<Rightarrow> (error + unit) \<times> netgraph" where
  "act_pan V x y st =
     (let st1 = st\<lparr>stdout := stdout st @ [PanTo x y]\<rparr>
      in case set_pos (Network (model V)) (Some (x, y)) (config st1) of
           Inl e \<Rightarrow> (Inl e, st1)
         | Inr cfg \<Rightarrow> save_config V (st1\<lparr>config := cfg\<rparr>))"

definition act_zoom :: "viz \<Rightarrow> json \<Rightarrow> json \<Rightarrow> json \<Rightarrow> netgraph \<Rightarrow> (error + unit) \<times> netgraph" where
  "act_zoom V scale x y st =
     (let st1 = st\<lparr>stdout := stdout st @ [ZoomTo scale]\<rparr>
      in case set_size (Network (model V)) (Some (scale, scale)) (config st1) of
           Inl e \<Rightarrow> (Inl e, st1)
         | Inr cfg1 \<Rightarrow>
             (case set_pos (Network (model V)) (Some (x, y)) cfg1 of
                Inl e \<Rightarrow> (Inl e, st1\<lparr>config := cfg1\<rparr>)
              | Inr cfg2 \<Rightarrow> save_config V (st1\<lparr>config := cfg2\<rparr>)))"

definition act_pos :: "viz \<Rightarrow> json \<Rightarrow> json \<Rightarrow> json \<Rightarrow> netgraph \<Rightarrow> (error + unit) \<times> netgraph" where
  "act_pos V uid x y st =
     (case uids_lookup (uids st) uid of
        Inl e \<Rightarrow> (Inl e, st)
      | Inr ob \<Rightarrow>
          (case set_pos ob (Some (x, y)) (config st) of
             Inl e \<Rightarrow> (Inl e, st)
           | Inr cfg \<Rightarrow> save_config V (st\<lparr>config := cfg\<rparr>)))"

definition act_size :: "viz \<Rightarrow> json \<Rightarrow> json \<Rightarrow> json \<Rightarrow> netgraph \<Rightarrow> (error + unit) \<times> netgraph" where
  "act_size V uid width height st =
     (case uids_lookup (uids st) uid of
        Inl e \<Rightarrow> (Inl e, st)
      | Inr ob \<Rightarrow>
          (case set_size ob (Some (width, height)) (config st) of
             Inl e \<Rightarrow> (Inl e, st)
           | Inr cfg \<Rightarrow> save_config V (st\<lparr>config := cfg\<rparr>)))"

text \<open>
  A call \<open>f(**info)\<close>: the keys of \<open>info\<close> must be exactly the parameter names of \<open>f\<close>
  (none has a default), otherwise the call raises \<open>TypeError\<close>.
\<close>

definition kwargs :: "(string \<times> json) list \<Rightarrow> string list \<Rightarrow> json list option" where
  "kwargs info names =
     (if set (map fst info) = set names then Some (map (\<lambda>k. the (map_of info k)) names)
      else None)"

text \<open>
  \<open>getattr(self, 'act_' + action)(**info)\<close>: the attributes of \<open>NetGraph\<close> whose names
  start with \<open>act_\<close> are the six handlers; any other name raises \<open>AttributeError\<close>.
\<close>

definition dispatch ::
  "viz \<Rightarrow> string \<Rightarrow> (string \<times> json) list \<Rightarrow> netgraph \<Rightarrow> (error + unit) \<times> netgraph" where
  "dispatch V action info st =
     (if action = ''expand'' then
        (case kwargs info [''uid''] of
           Some [uid] \<Rightarrow> act_expand V uid st | _ \<Rightarrow> (Inl TypeError, st))
      else if action = ''collapse'' then
        (case kwargs info [''uid''] of
           Some [uid] \<Rightarrow> act_collapse V uid st | _ \<Rightarrow> (Inl TypeError, st))
      else if action = ''pan'' then
        (case kwargs info [''x'', ''y''] of
           Some [x, y] \<Rightarrow> act_pan V x y st | _ \<Rightarrow> (Inl TypeError, st))
      else if action = ''zoom'' then
        (case kwargs info [''scale'', ''x'', ''y''] of
           Some [scale, x, y] \<Rightarrow> act_zoom V scale x y st | _ \<Rightarrow> (Inl TypeError, st))
      else if action = ''pos'' then
        (case kwargs info [''uid'', ''x'', ''y''] of
           Some [uid, x, y] \<Rightarrow> act_pos V uid x y st | _ \<Rightarrow> (Inl TypeError, st))
      else if action = ''size'' then
        (case kwargs info [''uid'', ''width'', ''height''] of
           Some [uid, width, height] \<Rightarrow> act_size V uid width height st
         | _ \<Rightarrow> (Inl TypeError, st))
      else (Inl AttributeError, st))"

text \<open>
  \<open>message\<close>. \<open>json.loads\<close> raises \<open>ValueError\<close> on text that is not JSON; a decoded
  value that is not an object has no \<open>get\<close>; \<open>'act_' + action\<close> raises \<open>TypeError\<close>
  unless \<open>action\<close> is a string. Nothing in \<open>message\<close> catches an exception.
\<close>

fun message_info ::
  "viz \<Rightarrow> string \<Rightarrow> json \<Rightarrow> netgraph \<Rightarrow> (error + unit) \<times> netgraph" where
  "message_info V msg (JObj info) st =
     (case map_of info ''act'' of
        None \<Rightarrow> (Inr (), st\<lparr>stdout := stdout st @ [ReceivedMessage msg]\<rparr>)
      | Some JNull \<Rightarrow> (Inr (), st\<lparr>stdout := stdout st @ [ReceivedMessage msg]\<rparr>)
      | Some (JStr action) \<Rightarrow> dispatch V action (AList.delete ''act'' info) st
      | Some v \<Rightarrow> (Inl TypeError, st))"
| "message_info V msg v st = (Inl AttributeError, st)"

definition message :: "viz \<Rightarrow> string \<Rightarrow> netgraph \<Rightarrow> (error + unit) \<times> netgraph" where
  "message V msg st =
     (case json_loads V msg of
        None \<Rightarrow> (Inl ValueError, st)
      | Some info \<Rightarrow> message_info V msg info st)"

subsection \<open>Reading the persisted store\<close>

text \<open>
  \<open>exec config_code in locals\<close> runs the lines in order; the first exception ends the
  execution. A line first evaluates its value: the names \<open>inf\<close> and \<open>nan\<close>, as which a
  float that is not finite was written, are not defined (\<open>NameError\<close>). It then
  evaluates its uid: the name \<open>config\<close> is the fresh \<open>Config()\<close>, a name of \<open>locals\<close> is
  its object, a builtin is an object no class of which is configured (\<open>KeyError\<close>), and
  any other name is not defined. Last it assigns the parameter.
\<close>

fun readable :: "json \<Rightarrow> bool" where
  "readable JNonFinite = False"
| "readable (JArr xs) = (\<forall>x \<in> set xs. readable x)"
| "readable (JObj kvs) = (\<forall>v \<in> snd ` set kvs. readable v)"
| "readable v = True"

fun readable_value :: "(json \<times> json) option \<Rightarrow> bool" where
  "readable_value None = True"
| "readable_value (Some (x, y)) = (readable x \<and> readable y)"

definition eval_uid :: "viz \<Rightarrow> string \<Rightarrow> error + obj" where
  "eval_uid V uid =
     (if uid = ''config'' then Inl KeyError
      else case locals V uid of
             Some ob \<Rightarrow> Inr ob
           | None \<Rightarrow> if builtins V uid then Inl KeyError else Inl NameError)"

fun exec_line :: "viz \<Rightarrow> line \<Rightarrow> config \<Rightarrow> error + config" where
  "exec_line V (SetPos uid v) cfg =
     (if \<not> readable_value v then Inl NameError
      else case eval_uid V uid of Inl e \<Rightarrow> Inl e | Inr ob \<Rightarrow> set_pos ob v cfg)"
| "exec_line V (SetSize uid v) cfg =
     (if \<not> readable_value v then Inl NameError
      else case eval_uid V uid of Inl e \<Rightarrow> Inl e | Inr ob \<Rightarrow> set_size ob v cfg)"
| "exec_line V (SetExpanded uid v) cfg =
     (case eval_uid V uid of Inl e \<Rightarrow> Inl e | Inr ob \<Rightarrow> set_expanded ob v cfg)"

fun exec_code :: "viz \<Rightarrow> line list \<Rightarrow> config \<Rightarrow> error + config" where
  "exec_code V [] cfg = Inr cfg"
| "exec_code V (l # ls) cfg =
     (case exec_line V l cfg of Inl e \<Rightarrow> Inl e | Inr cfg1 \<Rightarrow> exec_code V ls cfg1)"

text \<open>
  \<open>find_config\<close>, given the files and the class attribute \<open>NetGraph.configs\<close>; it returns
  the config and the new value of \<open>NetGraph.configs\<close>. Opening a file that does not
  exist raises \<open>IOError\<close>.
\<close>

definition find_config ::
  "viz \<Rightarrow> (string \<rightharpoonup> line list) \<Rightarrow> (ref \<rightharpoonup> config) \<Rightarrow> (error + config) \<times> (ref \<rightharpoonup> config)" where
  "find_config V fs configs =
     (case filename V of
        Some f \<Rightarrow>
          (case fs (f @ ''.cfg'') of
             None \<Rightarrow> (Inl IOError, configs)
           | Some config_code \<Rightarrow> (exec_code V config_code Config, configs))
      | None \<Rightarrow>
          (case configs (model V) of
             None \<Rightarrow> (Inr Config, configs(model V \<mapsto> Config))
           | Some cfg \<Rightarrow> (Inr cfg, configs)))"

subsection \<open>Notions used to state the properties\<close>

text \<open>A list of uids in which every element is followed by its parent.\<close>

fun linked :: "(string \<rightharpoonup> string) \<Rightarrow> string list \<Rightarrow> bool" where
  "linked ps [] = True"
| "linked ps [x] = True"
| "linked ps (x # y # xs) = (ps x = Some y \<and> linked ps (y # xs))"

text \<open>The objects directly under a network, in the order \<open>expand_network\<close> creates them.\<close>

definition children :: "viz \<Rightarrow> ref \<Rightarrow> obj list" where
  "children V c =
     map Ensemble (ensembles (nets V c)) @ map Node (nodes (nets V c)) @
     map Network (networks (nets V c))"

text \<open>An object whose entry has both a position and a size.\<close>

definition placed :: "netgraph \<Rightarrow> obj \<Rightarrow> bool" where
  "placed st ob = (pos (config st ob) \<noteq> None \<and> size_p (config st ob) \<noteq> None)"

text \<open>The state after the three object loops of \<open>expand_network\<close>.\<close>

definition objects_created :: "viz \<Rightarrow> ref \<Rightarrow> netgraph \<Rightarrow> netgraph" where
  "objects_created V c st =
     (let parent = (if c = model V then None else Some (get_uid V (Network c)));
          st1 = fold (\<lambda>e. create_object V (Ensemble e) ''ens'' parent) (ensembles (nets V c)) st;
          st2 = fold (\<lambda>n. create_object V (Node n) ''node'' parent) (nodes (nets V c)) st1
      in fold (\<lambda>n. create_object V (Network n) ''net'' parent) (networks (nets V c)) st2)"






text \<open>
  The states one session passes through, as far as the parent index is concerned: it
  starts as \<open>__init__\<close> leaves it, \<open>get_parents\<close> is the only operation that touches
  \<open>parents\<close> and \<open>networks_to_search\<close>, and everything else leaves them alone.
\<close>

inductive session :: "viz \<Rightarrow> netgraph \<Rightarrow> bool" for V :: viz where
  started: "session V (init V cfg fs r)"
| resolved: "session V st \<Longrightarrow> get_parents V uid st = Some (res, st') \<Longrightarrow> session V st'"
| other: "session V st \<Longrightarrow> parents st' = parents st \<Longrightarrow>
          networks_to_search st' = networks_to_search st \<Longrightarrow> searched st' = searched st \<Longrightarrow>
          session V st'"

text \<open>
  A list of uids in which every element is followed by the uid of a network that holds,
  directly, an object with that element as its uid.
\<close>

fun contained :: "viz \<Rightarrow> string list \<Rightarrow> bool" where
  "contained V [] = True"
| "contained V [x] = True"
| "contained V (x # y # xs) =
     ((\<exists>n. y = get_uid V (Network n) \<and> x \<in> get_uid V ` set (children V n)) \<and>
      contained V (y # xs))"

text \<open>
  The parent index records the hierarchy: every entry leads from the uid of a child of a
  network that was taken from the work queue to the uid of that network, and every
  network that was taken from the queue or waits in it is the root or has an entry.
\<close>

definition index_of_hierarchy :: "viz \<Rightarrow> netgraph \<Rightarrow> bool" where
  "index_of_hierarchy V st =
     ((\<forall>u p. parents st u = Some p \<longrightarrow>
         (\<exists>n \<in> set (searched st). p = get_uid V (Network n) \<and>
                                  u \<in> get_uid V ` set (children V n))) \<and>
      (\<forall>n \<in> set (searched st @ networks_to_search st).
         n = model V \<or> parents st (get_uid V (Network n)) \<noteq> None))"

text \<open>Two states with the same parent index, work queue and record of visits.\<close>

definition same_index :: "netgraph \<Rightarrow> netgraph \<Rightarrow> bool" where
  "same_index st st' =
     (parents st' = parents st \<and> networks_to_search st' = networks_to_search st \<and>
      searched st' = searched st)"

subsection \<open>Sample models\<close>

definition digit :: "nat \<Rightarrow> string" where
  "digit n = [''0'', ''1'', ''2'', ''3'', ''4'', ''5'', ''6'', ''7'', ''8'', ''9''] ! n"

definition sample_uid :: "obj \<Rightarrow> string" where
  "sample_uid ob =
     (case ob of
        Ensemble e \<Rightarrow> ''ens'' @ digit e
      | Node n \<Rightarrow> ''node'' @ digit n
      | Network n \<Rightarrow> (if n = 0 then ''model'' else ''net'' @ digit n)
      | Connection c \<Rightarrow> ''conn'' @ digit c)"

definition no_children :: network where
  "no_children = \<lparr>ensembles = [], nodes = [], networks = [], connections = []\<rparr>"

text \<open>
  The root holds ensemble 1, node 2, the sub-network 4 and connection 3 from the node to
  the ensemble; the sub-network holds ensemble 5 and connection 6 from ensemble 5 to
  ensemble 1.
\<close>

definition sample_viz :: viz where
  "sample_viz =
     \<lparr>model = 0,
      nets = (\<lambda>r. if r = 0 then
                     \<lparr>ensembles = [1], nodes = [2], networks = [4], connections = [3]\<rparr>
                   else if r = 4 then
                     \<lparr>ensembles = [5], nodes = [], networks = [], connections = [6]\<rparr>
                   else no_children),
      conns = (\<lambda>c. if c = 3 then \<lparr>pre_obj = Node 2, post_obj = Ensemble 1\<rparr>
                    else \<lparr>pre_obj = Ensemble 5, post_obj = Ensemble 1\<rparr>),
      get_uid = sample_uid,
      get_label = sample_uid,
      filename = Some ''m.py'',
      locals = [''ens1'' \<mapsto> Ensemble 1, ''node2'' \<mapsto> Node 2, ''net4'' \<mapsto> Network 4,
                ''model'' \<mapsto> Network 0, ''ens5'' \<mapsto> Ensemble 5],
      builtins = (\<lambda>s. s = ''len''),
      json_loads =
        (\<lambda>s. if s = ''fly'' then Some (JObj [(''act'', JStr ''fly'')])
             else if s = ''expand ghost'' then
               Some (JObj [(''act'', JStr ''expand''), (''uid'', JStr ''ghost'')])
             else None),
      id_str = digit\<rparr>"

text \<open>The root holds one ensemble and one node and nothing else.\<close>

definition two_leaves :: viz where
  "two_leaves =
     sample_viz\<lparr>nets := (\<lambda>r. if r = 0 then
                               \<lparr>ensembles = [1], nodes = [2], networks = [], connections = []\<rparr>
                             else no_children)\<rparr>"

text \<open>
  Networks 1 and 2 under the root both hold network 3; network 2 also holds network 4,
  which holds ensemble 5.
\<close>

definition shared_viz :: viz where
  "shared_viz =
     sample_viz\<lparr>nets := (\<lambda>r. if r = 0 then no_children\<lparr>networks := [1, 2]\<rparr>
                             else if r = 1 then no_children\<lparr>networks := [3]\<rparr>
                             else if r = 2 then no_children\<lparr>networks := [3, 4]\<rparr>
                             else if r = 4 then no_children\<lparr>ensembles := [5]\<rparr>
                             else no_children)\<rparr>"

text \<open>
  The sample model with connection 6 leaving an ensemble that no network holds.
\<close>

definition dangling_viz :: viz where
  "dangling_viz =
     sample_viz\<lparr>conns := (\<lambda>c. if c = 3 then \<lparr>pre_obj = Node 2, post_obj = Ensemble 1\<rparr>
                               else \<lparr>pre_obj = Ensemble 9, post_obj = Ensemble 1\<rparr>)\<rparr>"

definition sample_rng :: "nat \<Rightarrow> real" where
  "sample_rng i = 1 / (2 + real i)"

definition sample_start :: "viz \<Rightarrow> netgraph" where
  "sample_start V = init V Config Map.empty sample_rng"

text \<open>The state of a fresh session after its first tick.\<close>

definition first_tick :: "viz \<Rightarrow> netgraph" where
  "first_tick V = snd (the (update_client V (sample_start V)))"

section \<open>Properties\<close>

subsection \<open>The two loops of get\_parents\<close>

lemma search_parents_result:
  assumes "search_parents V uid st = Some res"
  shows "(fst res = Inr () \<and> parents (snd res) uid \<noteq> None) \<or>
         (fst res = Inl IndexError \<and> parents (snd res) uid = None \<and>
          networks_to_search (snd res) = [])"
  by (rule search_parents.raw_induct[where P = "\<lambda>V uid st res.
         (fst res = Inr () \<and> parents (snd res) uid \<noteq> None) \<or>
         (fst res = Inl IndexError \<and> parents (snd res) uid = None \<and>
          networks_to_search (snd res) = [])", OF _ assms])
     (auto split: if_splits list.splits)

lemma search_parents_frame:
  assumes "search_parents V uid st = Some res"
  shows "config (snd res) = config st \<and> to_be_expanded (snd res) = to_be_expanded st \<and>
         uids (snd res) = uids st \<and> client (snd res) = client st \<and>
         files (snd res) = files st \<and> stdout (snd res) = stdout st \<and>
         rng (snd res) = rng st"
  by (rule search_parents.raw_induct[where P = "\<lambda>V uid st res.
         config (snd res) = config st \<and> to_be_expanded (snd res) = to_be_expanded st \<and>
         uids (snd res) = uids st \<and> client (snd res) = client st \<and>
         files (snd res) = files st \<and> stdout (snd res) = stdout st \<and>
         rng (snd res) = rng st", OF _ assms])
     (auto split: if_splits list.splits)

lemma linked_snoc:
  "xs \<noteq> [] \<Longrightarrow> linked ps xs \<Longrightarrow> ps (last xs) = Some p \<Longrightarrow> linked ps (xs @ [p])"
  by (induction ps xs rule: linked.induct) auto

lemma walk_parents_result:
  assumes "walk_parents ps chain = Some r"
  shows "chain \<noteq> [] \<longrightarrow> linked ps chain \<longrightarrow>
           (linked ps r \<and> ps (last r) = None \<and> hd r = hd chain \<and> length chain \<le> length r)"
  by (rule walk_parents.raw_induct[where P = "\<lambda>ps chain r. chain \<noteq> [] \<longrightarrow> linked ps chain \<longrightarrow>
           (linked ps r \<and> ps (last r) = None \<and> hd r = hd chain \<and> length chain \<le> length r)",
        OF _ assms])
     (fastforce split: option.splits simp: linked_snoc)

lemma get_parents_chain:
  assumes "get_parents V uid st = Some (Inr chain, st')"
  shows "hd chain = uid \<and> 2 \<le> length chain \<and> linked (parents st') chain \<and>
         parents st' (last chain) = None"
proof -
  from assms obtain u where s: "search_parents V uid st = Some (Inr u, st')"
    and w: "walk_parents (parents st') [uid] = Some chain"
    by (auto simp: get_parents_def split: option.splits sum.splits)
  from search_parents_result[OF s] obtain p where p: "parents st' uid = Some p" by auto
  from w p have w2: "walk_parents (parents st') [uid, p] = Some chain"
    by (subst (asm) walk_parents.simps) simp
  from walk_parents_result[OF w2] p show ?thesis by auto
qed

lemma get_parents_error:
  assumes "get_parents V uid st = Some (Inl e, st')"
  shows "e = IndexError \<and> parents st' uid = None \<and> networks_to_search st' = []"
proof -
  from assms have "search_parents V uid st = Some (Inl e, st')"
    by (auto simp: get_parents_def split: option.splits sum.splits)
  from search_parents_result[OF this] show ?thesis by auto
qed

lemma get_parents_frame:
  assumes "get_parents V uid st = Some (r, st')"
  shows "config st' = config st \<and> to_be_expanded st' = to_be_expanded st \<and>
         uids st' = uids st \<and> client st' = client st \<and> files st' = files st \<and>
         stdout st' = stdout st \<and> rng st' = rng st"
  using assms search_parents_frame[of V uid st]
  by (auto simp: get_parents_def split: option.splits sum.splits)

lemmas sample_defs =
  sample_viz_def two_leaves_def shared_viz_def dangling_viz_def first_tick_def sample_start_def sample_uid_def digit_def
  no_children_def init_def Config_def default_entry_def

lemmas run_defs =
  update_client_def create_object_def uniform01_def Let_def create_connection_def
  get_parents_def search_parents.simps walk_parents.simps index_children_def
  send_pan_and_zoom_def save_config_def dumps_def

subsection \<open>Exhausting the work queue\<close>

text \<open>
  C2, as the specification states it, fails. In the sample model no object has the uid
  \<open>''ghost''\<close>; resolving it takes the root and the sub-network from the queue and then
  raises \<open>IndexError\<close> on the empty queue.
\<close>

theorem exhausted_queue_counterexample:
  "map_option (\<lambda>(r, s). (r, searched s, networks_to_search s))
     (get_parents sample_viz ''ghost'' (sample_start sample_viz))
   = Some (Inl IndexError, [0, 4], [])"
  by (simp add: sample_defs run_defs)

text \<open>
  C2, amended. When the uid is not indexed and the work queue is empty, \<open>get_parents\<close>
  raises \<open>IndexError\<close> and leaves the state as it is; and whenever \<open>get_parents\<close>
  returns without the uid being indexed, it has raised \<open>IndexError\<close> on an empty queue.
  No chain is returned for a uid that has no parent.
\<close>

theorem exhausted_queue_raises:
  "(parents st uid = None \<and> networks_to_search st = [] \<longrightarrow>
      get_parents V uid st = Some (Inl IndexError, st)) \<and>
   (\<forall>res st'. get_parents V uid st = Some (res, st') \<and> parents st' uid = None \<longrightarrow>
      res = Inl IndexError \<and> networks_to_search st' = [])"
proof (intro conjI allI impI)
  assume "parents st uid = None \<and> networks_to_search st = []"
  then show "get_parents V uid st = Some (Inl IndexError, st)"
    by (simp add: get_parents_def search_parents.simps)
next
  fix res st'
  assume a: "get_parents V uid st = Some (res, st') \<and> parents st' uid = None"
  show "res = Inl IndexError" 
  proof (cases res)
    case (Inl e)
    with a get_parents_error[of V uid st e st'] show ?thesis by simp
  next
    case (Inr chain)
    with a get_parents_chain[of V uid st chain st'] have "linked (parents st') chain"
      "2 \<le> length chain" "hd chain = uid" by auto
    with a show ?thesis by (cases chain; cases "tl chain") auto
  qed
  then show "networks_to_search st' = []"
    using a get_parents_error[of V uid st _ st'] by auto
qed

theorem exhausted_queue_raises_witness:
  "get_parents sample_viz ''ghost'' ((sample_start sample_viz)\<lparr>networks_to_search := []\<rparr>)
     = Some (Inl IndexError, (sample_start sample_viz)\<lparr>networks_to_search := []\<rparr>)"
  using exhausted_queue_raises[of "(sample_start sample_viz)\<lparr>networks_to_search := []\<rparr>"
      "''ghost''" sample_viz]
  by (simp add: sample_defs)

subsection \<open>Inbound messages\<close>

text \<open>
  C3, as the specification states it, fails. The sample model decodes the message
  \<open>''fly''\<close> to an object whose \<open>act\<close> is \<open>fly\<close>: \<open>message\<close> ends with the
  \<open>AttributeError\<close> of \<open>getattr\<close>, which it hands to its caller, and prints nothing.
\<close>

theorem unknown_action_counterexample:
  "message sample_viz ''fly'' (sample_start sample_viz)
     = (Inl AttributeError, sample_start sample_viz) \<and>
   stdout (snd (message sample_viz ''fly'' (sample_start sample_viz))) = []"
  by (simp add: sample_defs message_def dispatch_def)

text \<open>
  C3, amended. For every message whose \<open>act\<close> is a string that names none of the six
  actions, \<open>message\<close> raises \<open>AttributeError\<close> to its caller; nothing is printed and
  the state of the component is unchanged.
\<close>

theorem unknown_action_raises:
  assumes "json_loads V msg = Some (JObj info)"
    and "map_of info ''act'' = Some (JStr a)"
    and "a \<notin> {''expand'', ''collapse'', ''pan'', ''zoom'', ''pos'', ''size''}"
  shows "message V msg st = (Inl AttributeError, st)"
  using assms by (simp add: message_def dispatch_def)

theorem unknown_action_raises_witness:
  "message sample_viz ''fly'' (sample_start sample_viz)
     = (Inl AttributeError, sample_start sample_viz)"
  by (rule unknown_action_raises[of sample_viz "''fly''" "[(''act'', JStr ''fly'')]" "''fly''"])
     (simp_all add: sample_viz_def)

subsection \<open>Actions on a uid that is not registered\<close>

text \<open>
  C6, as the specification states it, fails. The sample model decodes the message
  \<open>''expand ghost''\<close> to an expand action for the uid \<open>ghost\<close>, which no object has:
  \<open>message\<close> ends with the \<open>KeyError\<close> of the lookup and hands it to its caller, so
  nothing in the component makes the session go on.
\<close>

theorem unknown_uid_counterexample:
  "message sample_viz ''expand ghost'' (sample_start sample_viz)
     = (Inl KeyError, sample_start sample_viz)"
  by (simp add: sample_defs message_def dispatch_def kwargs_def act_expand_def)

text \<open>
  C6, amended. An \<open>expand\<close>, \<open>collapse\<close>, \<open>pos\<close> or \<open>size\<close> action whose uid is not a
  key of \<open>uids\<close> raises \<open>KeyError\<close> (the specification's ObjectNotFound) at the lookup,
  before anything is changed: the state after the action, with its layout store,
  expansion queue and files, is the state before it. Neither the handler nor \<open>message\<close>
  catches the exception: a message carrying such an action ends with the \<open>KeyError\<close>,
  which goes to the caller of \<open>message\<close>.
\<close>

theorem unknown_uid_raises:
  assumes "map_of (uids st) u = None"
  shows "act_expand V (JStr u) st = (Inl KeyError, st) \<and>
         act_collapse V (JStr u) st = (Inl KeyError, st) \<and>
         act_pos V (JStr u) x y st = (Inl KeyError, st) \<and>
         act_size V (JStr u) w h st = (Inl KeyError, st) \<and>
         dispatch V ''expand'' [(''uid'', JStr u)] st = (Inl KeyError, st) \<and>
         dispatch V ''collapse'' [(''uid'', JStr u)] st = (Inl KeyError, st) \<and>
         dispatch V ''pos'' [(''uid'', JStr u), (''x'', x), (''y'', y)] st = (Inl KeyError, st) \<and>
         dispatch V ''size'' [(''uid'', JStr u), (''width'', w), (''height'', h)] st
           = (Inl KeyError, st) \<and>
         (json_loads V msg = Some (JObj info) \<and> map_of info ''act'' = Some (JStr a) \<and>
          ((a = ''expand'' \<or> a = ''collapse'') \<and>
             AList.delete ''act'' info = [(''uid'', JStr u)] \<or>
           a = ''pos'' \<and>
             AList.delete ''act'' info = [(''uid'', JStr u), (''x'', x), (''y'', y)] \<or>
           a = ''size'' \<and>
             AList.delete ''act'' info = [(''uid'', JStr u), (''width'', w), (''height'', h)])
          \<longrightarrow> message V msg st = (Inl KeyError, st))"
proof -
  have acts: "act_expand V (JStr u) st = (Inl KeyError, st)"
    "act_collapse V (JStr u) st = (Inl KeyError, st)"
    "act_pos V (JStr u) x y st = (Inl KeyError, st)"
    "act_size V (JStr u) w h st = (Inl KeyError, st)"
    using assms by (simp_all add: act_expand_def act_collapse_def act_pos_def act_size_def)
  have d: "dispatch V ''expand'' [(''uid'', JStr u)] st = (Inl KeyError, st)"
    "dispatch V ''collapse'' [(''uid'', JStr u)] st = (Inl KeyError, st)"
    "dispatch V ''pos'' [(''uid'', JStr u), (''x'', x), (''y'', y)] st = (Inl KeyError, st)"
    "dispatch V ''size'' [(''uid'', JStr u), (''width'', w), (''height'', h)] st
       = (Inl KeyError, st)"
    using acts by (simp_all add: dispatch_def kwargs_def)
  have m: "json_loads V msg = Some (JObj info) \<and> map_of info ''act'' = Some (JStr a) \<and>
          ((a = ''expand'' \<or> a = ''collapse'') \<and>
             AList.delete ''act'' info = [(''uid'', JStr u)] \<or>
           a = ''pos'' \<and>
             AList.delete ''act'' info = [(''uid'', JStr u), (''x'', x), (''y'', y)] \<or>
           a = ''size'' \<and>
             AList.delete ''act'' info = [(''uid'', JStr u), (''width'', w), (''height'', h)])
          \<longrightarrow> message V msg st = (Inl KeyError, st)"
    using d by (auto simp: message_def)
  from acts d m show ?thesis by (intro conjI)
qed

theorem unknown_uid_raises_witness:
  "act_expand sample_viz (JStr ''ghost'') (sample_start sample_viz)
     = (Inl KeyError, sample_start sample_viz) \<and>
   act_size sample_viz (JStr ''ghost'') (JNum 1) (JNum 2) (sample_start sample_viz)
     = (Inl KeyError, sample_start sample_viz) \<and>
   message sample_viz ''expand ghost'' (sample_start sample_viz)
     = (Inl KeyError, sample_start sample_viz)"
proof -
  have u: "map_of (uids (sample_start sample_viz)) ''ghost'' = None"
    by (simp add: sample_defs)
  have j: "json_loads sample_viz ''expand ghost'' =
             Some (JObj [(''act'', JStr ''expand''), (''uid'', JStr ''ghost'')])"
    by (simp add: sample_viz_def)
  have a: "map_of [(''act'', JStr ''expand''), (''uid'', JStr ''ghost'')] ''act''
             = Some (JStr ''expand'')"
    by simp
  have dl: "AList.delete ''act'' [(''act'', JStr ''expand''), (''uid'', JStr ''ghost'')]
              = [(''uid'', JStr ''ghost'')]"
    by simp
  from unknown_uid_raises[OF u, of sample_viz _ _ "JNum 1" "JNum 2" "''expand ghost''"
      "[(''act'', JStr ''expand''), (''uid'', JStr ''ghost'')]" "''expand''"] j a dl
  show ?thesis by simp
qed

subsection \<open>What create\_object and the connection loop change\<close>

lemma create_object_frame:
  "files (create_object V ob t p st) = files st \<and>
   parents (create_object V ob t p st) = parents st \<and>
   networks_to_search (create_object V ob t p st) = networks_to_search st \<and>
   searched (create_object V ob t p st) = searched st \<and>
   to_be_expanded (create_object V ob t p st) = to_be_expanded st \<and>
   stdout (create_object V ob t p st) = stdout st"
  by (simp add: create_object_def uniform01_def Let_def split: option.splits)

lemma create_object_expanded:
  "expanded (config (create_object V ob t p st) x) = expanded (config st x)"
  by (simp add: create_object_def uniform01_def Let_def split: option.splits)

lemma create_object_placed: "placed (create_object V ob t p st) ob"
  by (simp add: placed_def create_object_def uniform01_def Let_def split: option.splits)

lemma create_object_other:
  "x \<noteq> ob \<Longrightarrow> config (create_object V ob t p st) x = config st x"
  by (simp add: create_object_def uniform01_def Let_def split: option.splits)

lemma create_object_again:
  "placed st ob \<Longrightarrow>
     config (create_object V ob t p st) = config st \<and> rng (create_object V ob t p st) = rng st"
  by (auto simp: placed_def create_object_def uniform01_def Let_def split: option.splits)

lemma create_object_keeps:
  "placed st x \<Longrightarrow> config (create_object V ob t p st) x = config st x"
  by (cases "x = ob") (simp_all add: create_object_again create_object_other)

lemma create_object_client:
  "\<exists>m. client (create_object V ob t p st) = client st @ [m] \<and> is_CreateObject m \<and>
       m_uid m = get_uid V ob \<and> m_type m = t \<and> m_parent m = p"
  by (simp add: create_object_def uniform01_def Let_def split: option.splits prod.splits)

text \<open>The loops \<open>for ens in network.ensembles: self.create_object(...)\<close>.\<close>

lemma create_objects_frame:
  "files (fold (\<lambda>e. create_object V (F e) t p) xs st) = files st \<and>
   parents (fold (\<lambda>e. create_object V (F e) t p) xs st) = parents st \<and>
   networks_to_search (fold (\<lambda>e. create_object V (F e) t p) xs st) = networks_to_search st \<and>
   searched (fold (\<lambda>e. create_object V (F e) t p) xs st) = searched st \<and>
   to_be_expanded (fold (\<lambda>e. create_object V (F e) t p) xs st) = to_be_expanded st \<and>
   stdout (fold (\<lambda>e. create_object V (F e) t p) xs st) = stdout st"
  by (induction xs arbitrary: st) (simp_all add: create_object_frame)

lemma create_objects_expanded:
  "expanded (config (fold (\<lambda>e. create_object V (F e) t p) xs st) x) = expanded (config st x)"
  by (induction xs arbitrary: st) (simp_all add: create_object_expanded)

lemma create_objects_keeps:
  "placed st x \<Longrightarrow>
     config (fold (\<lambda>e. create_object V (F e) t p) xs st) x = config st x"
proof (induction xs arbitrary: st)
  case Nil
  then show ?case by simp
next
  case (Cons a xs)
  have "placed (create_object V (F a) t p st) x"
    using Cons.prems by (simp add: placed_def create_object_keeps)
  from Cons.IH[OF this] show ?case
    using Cons.prems by (simp add: create_object_keeps)
qed

lemma create_objects_placed:
  "x \<in> F ` set xs \<Longrightarrow> placed (fold (\<lambda>e. create_object V (F e) t p) xs st) x"
proof (induction xs arbitrary: st)
  case Nil
  then show ?case by simp
next
  case (Cons a xs)
  show ?case
  proof (cases "x \<in> F ` set xs")
    case True
    then show ?thesis using Cons.IH by simp
  next
    case False
    with Cons.prems have x: "x = F a" by auto
    have "placed (create_object V (F a) t p st) x"
      unfolding x by (rule create_object_placed)
    then show ?thesis
      by (simp add: placed_def create_objects_keeps)
  qed
qed

lemma create_objects_again:
  "\<forall>x \<in> F ` set xs. placed st x \<Longrightarrow>
     config (fold (\<lambda>e. create_object V (F e) t p) xs st) = config st \<and>
     rng (fold (\<lambda>e. create_object V (F e) t p) xs st) = rng st"
proof (induction xs arbitrary: st)
  case Nil
  then show ?case by simp
next
  case (Cons a xs)
  from Cons.prems have a: "placed st (F a)" by simp
  note ag = create_object_again[OF a, of V t p]
  have "\<forall>x \<in> F ` set xs. placed (create_object V (F a) t p st) x"
    using Cons.prems ag by (simp add: placed_def)
  from Cons.IH[OF this] ag show ?case by simp
qed

lemma create_objects_client:
  "\<exists>ms. client (fold (\<lambda>e. create_object V (F e) t p) xs st) = client st @ ms \<and>
        map m_uid ms = map (\<lambda>e. get_uid V (F e)) xs \<and>
        list_all (\<lambda>m. is_CreateObject m \<and> m_parent m = p) ms"
proof (induction xs arbitrary: st)
  case Nil
  then show ?case by simp
next
  case (Cons a xs)
  from create_object_client[of V "F a" t p st] obtain m where
    m: "client (create_object V (F a) t p st) = client st @ [m]" "is_CreateObject m"
       "m_uid m = get_uid V (F a)" "m_parent m = p" by blast
  from Cons.IH[of "create_object V (F a) t p st"] obtain ms where
    ms: "client (fold (\<lambda>e. create_object V (F e) t p) xs (create_object V (F a) t p st))
           = client (create_object V (F a) t p st) @ ms"
        "map m_uid ms = map (\<lambda>e. get_uid V (F e)) xs"
        "list_all (\<lambda>m. is_CreateObject m \<and> m_parent m = p) ms" by blast
  show ?case
    by (rule exI[of _ "m # ms"]) (simp add: m ms)
qed

lemma create_connection_frame:
  assumes "create_connection V c p st = Some (r, st')"
  shows "config st' = config st \<and> files st' = files st \<and> rng st' = rng st \<and>
         to_be_expanded st' = to_be_expanded st \<and> stdout st' = stdout st \<and>
         (\<exists>ms. client st' = client st @ ms)"
proof -
  let ?st1 = "st\<lparr>uids := AList.update (''conn_'' @ id_str V c) (Connection c) (uids st)\<rparr>"
  from assms obtain r1 s1 where
    g1: "get_parents V (get_uid V (pre_obj (conns V c))) ?st1 = Some (r1, s1)"
    by (auto simp: create_connection_def Let_def split: option.splits)
  note f1 = get_parents_frame[OF g1]
  show ?thesis
  proof (cases r1)
    case (Inl e)
    with assms g1 have "st' = s1" by (simp add: create_connection_def Let_def)
    with f1 show ?thesis by simp
  next
    case (Inr pres)
    with assms g1 obtain r2 s2 where
      g2: "get_parents V (get_uid V (post_obj (conns V c))) s1 = Some (r2, s2)"
      by (auto simp: create_connection_def Let_def split: option.splits)
    note f2 = get_parents_frame[OF g2]
    show ?thesis
      using assms g1 g2 Inr f1 f2
      by (cases r2) (auto simp: create_connection_def Let_def)
  qed
qed

lemma create_connections_frame:
  "create_connections V cs p st = Some (r, st') \<Longrightarrow>
     config st' = config st \<and> files st' = files st \<and> rng st' = rng st \<and>
     to_be_expanded st' = to_be_expanded st \<and> stdout st' = stdout st \<and>
     (\<exists>ms. client st' = client st @ ms)"
proof (induction cs arbitrary: st)
  case Nil
  then show ?case by simp
next
  case (Cons c cs)
  from Cons.prems obtain r1 s1 where c1: "create_connection V c p st = Some (r1, s1)"
    by (auto split: option.splits)
  note f1 = create_connection_frame[OF c1]
  show ?case
  proof (cases r1)
    case (Inl e)
    with Cons.prems c1 f1 show ?thesis by simp
  next
    case (Inr u)
    with Cons.prems c1 have "create_connections V cs p s1 = Some (r, st')" by simp
    from Cons.IH[OF this] f1 show ?thesis by auto
  qed
qed

subsection \<open>One expansion step\<close>

lemma expand_network_split:
  assumes "expand_network V (Network c) st = Some (r, st')"
  shows "\<exists>s4. create_connections V (connections (nets V c))
                (if c = model V then None else Some (get_uid V (Network c)))
                (objects_created V c st) = Some (r, s4) \<and>
              st' = (if r = Inr () then
                       s4\<lparr>config := (config s4)(Network c :=
                             (config s4 (Network c))\<lparr>expanded := True\<rparr>)\<rparr>
                     else s4)"
  using assms
  by (auto simp: objects_created_def Let_def split: option.splits sum.splits)

lemma objects_created_frame:
  "files (objects_created V c st) = files st \<and>
   to_be_expanded (objects_created V c st) = to_be_expanded st \<and>
   stdout (objects_created V c st) = stdout st"
  by (simp add: objects_created_def Let_def create_objects_frame)

lemma objects_created_expanded:
  "expanded (config (objects_created V c st) x) = expanded (config st x)"
  by (simp add: objects_created_def Let_def create_objects_expanded)

lemma objects_created_keeps:
  "placed st x \<Longrightarrow> config (objects_created V c st) x = config st x"
proof -
  assume a: "placed st x"
  let ?p = "if c = model V then None else Some (get_uid V (Network c))"
  let ?s1 = "fold (\<lambda>e. create_object V (Ensemble e) ''ens'' ?p) (ensembles (nets V c)) st"
  let ?s2 = "fold (\<lambda>n. create_object V (Node n) ''node'' ?p) (nodes (nets V c)) ?s1"
  have 1: "config ?s1 x = config st x" using a by (rule create_objects_keeps)
  then have "placed ?s1 x" using a by (simp add: placed_def)
  then have 2: "config ?s2 x = config ?s1 x" by (rule create_objects_keeps)
  then have "placed ?s2 x" using 1 a by (simp add: placed_def)
  then have "config (fold (\<lambda>n. create_object V (Network n) ''net'' ?p)
                      (networks (nets V c)) ?s2) x = config ?s2 x"
    by (rule create_objects_keeps)
  with 1 2 show ?thesis by (simp add: objects_created_def Let_def)
qed

lemma objects_created_placed:
  assumes "x \<in> set (children V c)"
  shows "placed (objects_created V c st) x"
proof -
  let ?p = "if c = model V then None else Some (get_uid V (Network c))"
  let ?s1 = "fold (\<lambda>e. create_object V (Ensemble e) ''ens'' ?p) (ensembles (nets V c)) st"
  let ?s2 = "fold (\<lambda>n. create_object V (Node n) ''node'' ?p) (nodes (nets V c)) ?s1"
  let ?s3 = "fold (\<lambda>n. create_object V (Network n) ''net'' ?p) (networks (nets V c)) ?s2"
  have keep2: "placed ?s1 x \<Longrightarrow> placed ?s2 x"
    by (simp add: placed_def create_objects_keeps)
  have keep3: "placed ?s2 x \<Longrightarrow> placed ?s3 x"
    by (simp add: placed_def create_objects_keeps)
  from assms consider "x \<in> Ensemble ` set (ensembles (nets V c))"
    | "x \<in> Node ` set (nodes (nets V c))" | "x \<in> Network ` set (networks (nets V c))"
    by (auto simp: children_def)
  then have "placed ?s3 x"
  proof cases
    case 1
    then have "placed ?s1 x" by (rule create_objects_placed)
    then show ?thesis using keep2 keep3 by blast
  next
    case 2
    then have "placed ?s2 x" by (rule create_objects_placed)
    then show ?thesis using keep3 by blast
  next
    case 3
    then show ?thesis by (rule create_objects_placed)
  qed
  then show ?thesis by (simp add: objects_created_def Let_def)
qed

lemma objects_created_again:
  assumes "\<forall>x \<in> set (children V c). placed st x"
  shows "config (objects_created V c st) = config st \<and> rng (objects_created V c st) = rng st"
proof -
  let ?p = "if c = model V then None else Some (get_uid V (Network c))"
  let ?s1 = "fold (\<lambda>e. create_object V (Ensemble e) ''ens'' ?p) (ensembles (nets V c)) st"
  let ?s2 = "fold (\<lambda>n. create_object V (Node n) ''node'' ?p) (nodes (nets V c)) ?s1"
  let ?s3 = "fold (\<lambda>n. create_object V (Network n) ''net'' ?p) (networks (nets V c)) ?s2"
  have "\<forall>x \<in> Ensemble ` set (ensembles (nets V c)). placed st x"
    using assms by (simp add: children_def)
  from create_objects_again[OF this, of V "''ens''" ?p]
  have 1: "config ?s1 = config st" "rng ?s1 = rng st" by simp_all
  have "\<forall>x \<in> Node ` set (nodes (nets V c)). placed ?s1 x"
    using assms 1 by (simp add: children_def placed_def)
  from create_objects_again[OF this, of V "''node''" ?p]
  have 2: "config ?s2 = config ?s1" "rng ?s2 = rng ?s1" by simp_all
  have "\<forall>x \<in> Network ` set (networks (nets V c)). placed ?s2 x"
    using assms 1 2 by (simp add: children_def placed_def)
  from create_objects_again[OF this, of V "''net''" ?p]
  have 3: "config ?s3 = config ?s2" "rng ?s3 = rng ?s2" by simp_all
  from 1 2 3 show ?thesis by (simp add: objects_created_def Let_def)
qed

lemma objects_created_client:
  "\<exists>ms. client (objects_created V c st) = client st @ ms \<and>
        map m_uid ms = map (get_uid V) (children V c) \<and>
        list_all (\<lambda>m. is_CreateObject m \<and>
                  m_parent m = (if c = model V then None else Some (get_uid V (Network c)))) ms"
proof -
  let ?p = "if c = model V then None else Some (get_uid V (Network c))"
  let ?s1 = "fold (\<lambda>e. create_object V (Ensemble e) ''ens'' ?p) (ensembles (nets V c)) st"
  let ?s2 = "fold (\<lambda>n. create_object V (Node n) ''node'' ?p) (nodes (nets V c)) ?s1"
  let ?s3 = "fold (\<lambda>n. create_object V (Network n) ''net'' ?p) (networks (nets V c)) ?s2"
  from create_objects_client[of V Ensemble "''ens''" ?p "ensembles (nets V c)" st]
  obtain m1 where m1: "client ?s1 = client st @ m1"
    "map m_uid m1 = map (\<lambda>e. get_uid V (Ensemble e)) (ensembles (nets V c))"
    "list_all (\<lambda>m. is_CreateObject m \<and> m_parent m = ?p) m1" by blast
  from create_objects_client[of V Node "''node''" ?p "nodes (nets V c)" ?s1]
  obtain m2 where m2: "client ?s2 = client ?s1 @ m2"
    "map m_uid m2 = map (\<lambda>e. get_uid V (Node e)) (nodes (nets V c))"
    "list_all (\<lambda>m. is_CreateObject m \<and> m_parent m = ?p) m2" by blast
  from create_objects_client[of V Network "''net''" ?p "networks (nets V c)" ?s2]
  obtain m3 where m3: "client ?s3 = client ?s2 @ m3"
    "map m_uid m3 = map (\<lambda>e. get_uid V (Network e)) (networks (nets V c))"
    "list_all (\<lambda>m. is_CreateObject m \<and> m_parent m = ?p) m3" by blast
  show ?thesis
    by (rule exI[of _ "m1 @ m2 @ m3"])
       (simp add: objects_created_def Let_def m1 m2 m3 children_def comp_def)
qed

lemma expanded_update_keeps_placed:
  "placed (s\<lparr>config := (config s)(Network c := (config s (Network c))\<lparr>expanded := b\<rparr>)\<rparr>) x
     = placed s x"
  by (simp add: placed_def)

text \<open>
  C5, as the specification states it, fails. The first tick of the sample model, whose
  filename is set, expands the root and sets its flag, and writes no file.
\<close>

theorem expansion_persists_counterexample:
  "map_option (\<lambda>(r, s). (r, expanded (config s (Network 0)), files s ''m.py.cfg''))
     (update_client sample_viz (sample_start sample_viz))
   = Some (Inr (), True, None)"
  by (simp add: sample_defs run_defs)

text \<open>
  C5, amended. For every container C taken from the queue by a tick that completes, C's
  entry has \<open>expanded = True\<close> afterwards, in the store in memory; the tick writes no
  file, so the store is persisted only by the next client action.
\<close>

theorem expansion_sets_flag_in_memory:
  assumes "to_be_expanded st = Network c # rest"
    and "update_client V st = Some (Inr (), st')"
  shows "expanded (config st' (Network c)) \<and> files st' = files st \<and> to_be_expanded st' = rest"
proof -
  from assms obtain s where
    e: "expand_network V (Network c) (st\<lparr>to_be_expanded := rest\<rparr>) = Some (Inr (), s)" and
    st': "st' = (if Network c = Network (model V) then send_pan_and_zoom V s else s)"
    by (auto simp: update_client_def split: option.splits sum.splits)
  from expand_network_split[OF e] obtain s4 where
    c: "create_connections V (connections (nets V c))
          (if c = model V then None else Some (get_uid V (Network c)))
          (objects_created V c (st\<lparr>to_be_expanded := rest\<rparr>)) = Some (Inr (), s4)" and
    s: "s = s4\<lparr>config := (config s4)(Network c := (config s4 (Network c))\<lparr>expanded := True\<rparr>)\<rparr>"
    by auto
  note f = create_connections_frame[OF c]
  have "expanded (config s (Network c)) \<and> files s = files st \<and> to_be_expanded s = rest"
    using f s by (simp add: objects_created_frame)
  then show ?thesis
    unfolding st' by (auto simp: send_pan_and_zoom_def Let_def)
qed

theorem expansion_sets_flag_in_memory_witness:
  "\<exists>st'. update_client sample_viz (sample_start sample_viz) = Some (Inr (), st') \<and>
         expanded (config st' (Network 0)) \<and> files st' = files (sample_start sample_viz)"
proof -
  let ?X = "update_client sample_viz (sample_start sample_viz)"
  have q: "to_be_expanded (sample_start sample_viz) = Network 0 # []"
    by (simp add: sample_defs)
  have run: "?X = Some (Inr (), snd (the ?X))"
    by (simp add: sample_defs run_defs)
  from expansion_sets_flag_in_memory[OF q run] run show ?thesis by blast
qed

text \<open>
  C8. When a container is expanded and then expanded again, the second step leaves the
  entry of every object other than the container itself exactly as the first step left
  it; the children all have a position and a size after the first step, which the second
  keeps; it draws no random number; it changes no \<open>expanded\<close> flag but the container's
  own; and when the first step completed, the second leaves the whole store unchanged.
\<close>

theorem expansion_idempotent:
  assumes "expand_network V (Network c) st = Some (r1, st1)"
    and "expand_network V (Network c) st1 = Some (r2, st2)"
  shows "(\<forall>x \<in> set (children V c). placed st1 x \<and> pos (config st2 x) = pos (config st1 x) \<and>
            size_p (config st2 x) = size_p (config st1 x)) \<and>
         (\<forall>x. x \<noteq> Network c \<longrightarrow> config st2 x = config st1 x) \<and>
         rng st2 = rng st1 \<and>
         (r1 = Inr () \<longrightarrow> config st2 = config st1)"
proof -
  let ?p = "if c = model V then None else Some (get_uid V (Network c))"
  from expand_network_split[OF assms(1)] obtain s4 where
    c1: "create_connections V (connections (nets V c)) ?p (objects_created V c st) = Some (r1, s4)"
    and st1: "st1 = (if r1 = Inr () then
                 s4\<lparr>config := (config s4)(Network c := (config s4 (Network c))\<lparr>expanded := True\<rparr>)\<rparr>
               else s4)" by blast
  from expand_network_split[OF assms(2)] obtain s5 where
    c2: "create_connections V (connections (nets V c)) ?p (objects_created V c st1) = Some (r2, s5)"
    and st2: "st2 = (if r2 = Inr () then
                 s5\<lparr>config := (config s5)(Network c := (config s5 (Network c))\<lparr>expanded := True\<rparr>)\<rparr>
               else s5)" by blast
  note f1 = create_connections_frame[OF c1] and f2 = create_connections_frame[OF c2]
  have pl: "\<forall>x \<in> set (children V c). placed st1 x"
  proof
    fix x assume "x \<in> set (children V c)"
    then have "placed (objects_created V c st) x" by (rule objects_created_placed)
    then have "placed s4 x" using f1 by (simp add: placed_def)
    then show "placed st1 x" unfolding st1 by (auto simp: placed_def)
  qed
  note ag = objects_created_again[OF pl]
  have s5: "config s5 = config st1" "rng s5 = rng st1" using f2 ag by simp_all
  have other: "\<forall>x. x \<noteq> Network c \<longrightarrow> config st2 x = config st1 x"
    unfolding st2 using s5 by simp
  have ps: "\<forall>x. pos (config st2 x) = pos (config st1 x) \<and>
                size_p (config st2 x) = size_p (config st1 x)"
    unfolding st2 using s5 by simp
  have r: "rng st2 = rng st1" unfolding st2 using s5 by simp
  have whole: "r1 = Inr () \<longrightarrow> config st2 = config st1"
  proof
    assume "r1 = Inr ()"
    then have "expanded (config st1 (Network c))" unfolding st1 by simp
    then have "(config st1)(Network c := (config st1 (Network c))\<lparr>expanded := True\<rparr>) = config st1"
      by (auto simp: fun_eq_iff)
    then show "config st2 = config st1" unfolding st2 using s5 by simp
  qed
  from pl other ps r whole show ?thesis by blast
qed

theorem expansion_idempotent_witness:
  "\<exists>st1 st2.
     expand_network sample_viz (Network 0) (sample_start sample_viz) = Some (Inr (), st1) \<and>
     expand_network sample_viz (Network 0) st1 = Some (Inr (), st2) \<and>
     placed st1 (Ensemble 1) \<and> config st2 = config st1 \<and> rng st2 = rng st1"
proof -
  let ?X1 = "expand_network sample_viz (Network 0) (sample_start sample_viz)"
  let ?X2 = "expand_network sample_viz (Network 0) (snd (the ?X1))"
  have r1: "?X1 = Some (Inr (), snd (the ?X1))"
    by (simp add: sample_defs run_defs)
  have r2: "?X2 = Some (Inr (), snd (the ?X2))"
    by (simp add: sample_defs run_defs)
  have ch: "Ensemble 1 \<in> set (children sample_viz 0)"
    by (simp add: children_def sample_defs)
  from expansion_idempotent[OF r1 r2] r1 r2 ch show ?thesis by blast
qed

text \<open>
  C9. The root holds one ensemble and one node and nothing else, no entry of the layout
  store is set, and the generator yields numbers in [0, 1). Then the first tick sends
  four messages: the creation of the ensemble, the creation of the node, the pan
  (0, 0) and the zoom 1.0; both objects have size (0.1, 0.1) and a position whose
  coordinates are the first four numbers of the generator, which lie in [0, 1).
\<close>

theorem first_expansion_of_two_leaves:
  assumes "nets V (model V) = \<lparr>ensembles = [e], nodes = [n], networks = [], connections = []\<rparr>"
    and "\<forall>i. 0 \<le> r i \<and> r i < 1"
  shows "\<exists>st'. update_client V (init V Config fs r) = Some (Inr (), st') \<and>
           client st' =
             [CreateObject (get_uid V (Ensemble e)) (get_label V (Ensemble e))
                (JNum (r 0), JNum (r 1)) ''ens'' (JNum (1 / 10), JNum (1 / 10)) None None,
              CreateObject (get_uid V (Node n)) (get_label V (Node n))
                (JNum (r 2), JNum (r 3)) ''node'' (JNum (1 / 10), JNum (1 / 10)) None None,
              PanMsg (JNum 0, JNum 0), ZoomMsg (JNum 1)] \<and>
           0 \<le> r 0 \<and> r 0 < 1 \<and> 0 \<le> r 1 \<and> r 1 < 1 \<and>
           0 \<le> r 2 \<and> r 2 < 1 \<and> 0 \<le> r 3 \<and> r 3 < 1"
  using assms
  by (simp add: init_def Config_def default_entry_def update_client_def create_object_def
        uniform01_def Let_def send_pan_and_zoom_def numeral_2_eq_2 numeral_3_eq_3)

theorem first_expansion_of_two_leaves_witness:
  "\<exists>st'. update_client two_leaves (init two_leaves Config Map.empty sample_rng)
           = Some (Inr (), st') \<and>
         client st' =
           [CreateObject ''ens1'' ''ens1'' (JNum (1 / 2), JNum (1 / 3)) ''ens''
              (JNum (1 / 10), JNum (1 / 10)) None None,
            CreateObject ''node2'' ''node2'' (JNum (1 / 4), JNum (1 / 5)) ''node''
              (JNum (1 / 10), JNum (1 / 10)) None None,
            PanMsg (JNum 0, JNum 0), ZoomMsg (JNum 1)]"
proof -
  have n: "nets two_leaves (model two_leaves) =
             \<lparr>ensembles = [1], nodes = [2], networks = [], connections = []\<rparr>"
    by (simp add: sample_defs)
  have g: "\<forall>i. 0 \<le> sample_rng i \<and> sample_rng i < 1"
    by (simp add: sample_rng_def)
  from first_expansion_of_two_leaves[OF n g, of Map.empty] obtain st' where
    a: "update_client two_leaves (init two_leaves Config Map.empty sample_rng)
          = Some (Inr (), st')" and
    b: "client st' =
             [CreateObject (get_uid two_leaves (Ensemble 1)) (get_label two_leaves (Ensemble 1))
                (JNum (sample_rng 0), JNum (sample_rng 1)) ''ens''
                (JNum (1 / 10), JNum (1 / 10)) None None,
              CreateObject (get_uid two_leaves (Node 2)) (get_label two_leaves (Node 2))
                (JNum (sample_rng 2), JNum (sample_rng 3)) ''node''
                (JNum (1 / 10), JNum (1 / 10)) None None,
              PanMsg (JNum 0, JNum 0), ZoomMsg (JNum 1)]"
    by blast
  show ?thesis
    by (rule exI[of _ st']) (use a b in \<open>simp add: sample_defs sample_rng_def\<close>)
qed


subsection \<open>Collapsing a container that waits for its expansion\<close>

lemma tick_sends_children:
  assumes q: "to_be_expanded s2 = [Network n]"
    and t: "update_client V s2 = Some (r, s3)"
  shows "(\<exists>ms rest. client s3 = client s2 @ ms @ rest \<and>
            map m_uid ms = map (get_uid V) (children V n) \<and>
            list_all (\<lambda>m. is_CreateObject m \<and>
               m_parent m = (if n = model V then None else Some (get_uid V (Network n)))) ms) \<and>
         (r = Inr () \<longrightarrow> expanded (config s3 (Network n)))"
proof -
  let ?p = "if n = model V then None else Some (get_uid V (Network n))"
  let ?s = "s2\<lparr>to_be_expanded := []\<rparr>"
  from q t obtain r' s where
    e: "expand_network V (Network n) ?s = Some (r', s)" and
    r: "r = r'" and
    s3: "s3 = (if r' = Inr () \<and> n = model V then send_pan_and_zoom V s else s)"
    by (auto simp: update_client_def split: option.splits sum.splits)
  from expand_network_split[OF e] obtain s4 where
    c: "create_connections V (connections (nets V n)) ?p (objects_created V n ?s) = Some (r', s4)"
    and s: "s = (if r' = Inr () then
                   s4\<lparr>config := (config s4)(Network n := (config s4 (Network n))\<lparr>expanded := True\<rparr>)\<rparr>
                 else s4)" by blast
  from create_connections_frame[OF c] obtain cs where
    cs: "client s4 = client (objects_created V n ?s) @ cs" by blast
  from objects_created_client[of V n ?s] obtain ms where
    ms: "client (objects_created V n ?s) = client ?s @ ms"
        "map m_uid ms = map (get_uid V) (children V n)"
        "list_all (\<lambda>m. is_CreateObject m \<and> m_parent m = ?p) ms" by blast
  have cl: "client s = client s2 @ ms @ cs" unfolding s using cs ms by simp
  have "\<exists>rest. client s3 = client s2 @ ms @ rest"
    unfolding s3 using cl by (simp add: send_pan_and_zoom_def Let_def)
  moreover have "r = Inr () \<longrightarrow> expanded (config s3 (Network n))"
    unfolding s3 r s by (simp add: send_pan_and_zoom_def Let_def)
  ultimately show ?thesis using ms by blast
qed

lemma registered_flag_is_dumped:
  assumes "map_of us u = Some (Network n)"
  shows "SetExpanded u (expanded (cfg (Network n))) \<in> set (dumps cfg us)"
proof -
  from assms have "(u, Network n) \<in> set (sort_key fst us)"
    by (simp add: map_of_SomeD)
  moreover have "SetExpanded u (expanded (cfg (Network n))) \<in> set (dump_item cfg (u, Network n))"
    by simp
  ultimately show ?thesis
    unfolding dumps_def by (auto simp del: dump_item.simps)
qed

text \<open>
  C10, as the specification states it, fails, in three ways. In a session without a
  filename the collapse action raises \<open>TypeError\<close> instead of saving. When connection 6
  of the sub-network leaves an ensemble that no network holds, the tick after an expand
  and a collapse action raises \<open>IndexError\<close> in the connection loop and the flag stays
  \<open>False\<close>. And when network 1 was enqueued before network 2 was enqueued and
  collapsed, the next tick expands network 1 and leaves network 2 in the queue with its
  flag \<open>False\<close>.
\<close>

theorem collapse_counterexample:
  "fst (act_collapse (sample_viz\<lparr>filename := None\<rparr>) (JStr ''net4'')
          (first_tick (sample_viz\<lparr>filename := None\<rparr>))) = Inl TypeError \<and>
   map_option (\<lambda>(r, s). (r, expanded (config s (Network 4))))
     (update_client dangling_viz
        (snd (act_collapse dangling_viz (JStr ''net4'')
           (snd (act_expand dangling_viz (JStr ''net4'') (first_tick dangling_viz))))))
     = Some (Inl IndexError, False) \<and>
   map_option (\<lambda>(r, s). (r, expanded (config s (Network 2)), to_be_expanded s))
     (update_client shared_viz
        (snd (act_collapse shared_viz (JStr ''net2'')
           (snd (act_expand shared_viz (JStr ''net2'')
              (snd (act_expand shared_viz (JStr ''net1'') (first_tick shared_viz))))))))
     = Some (Inr (), False, [Network 2])"
proof (intro conjI)
  show "fst (act_collapse (sample_viz\<lparr>filename := None\<rparr>) (JStr ''net4'')
          (first_tick (sample_viz\<lparr>filename := None\<rparr>))) = Inl TypeError"
    by (simp add: sample_defs run_defs act_collapse_def)
  show "map_option (\<lambda>(r, s). (r, expanded (config s (Network 4))))
     (update_client dangling_viz
        (snd (act_collapse dangling_viz (JStr ''net4'')
           (snd (act_expand dangling_viz (JStr ''net4'') (first_tick dangling_viz))))))
     = Some (Inl IndexError, False)"
    by (simp add: sample_defs run_defs act_expand_def act_collapse_def)
  show "map_option (\<lambda>(r, s). (r, expanded (config s (Network 2)), to_be_expanded s))
     (update_client shared_viz
        (snd (act_collapse shared_viz (JStr ''net2'')
           (snd (act_expand shared_viz (JStr ''net2'')
              (snd (act_expand shared_viz (JStr ''net1'') (first_tick shared_viz))))))))
     = Some (Inr (), False, [Network 2])"
    by (simp add: sample_defs run_defs act_expand_def act_collapse_def)
qed

text \<open>
  C10, amended. For every uid registered for a network, in a session that has a filename,
  the collapse action changes the \<open>expanded\<close> flag of that network to \<open>False\<close> and
  writes the file, whose text records the flag as \<open>False\<close>, and changes nothing else;
  in particular \<open>to_be_expanded\<close> is as it was. So after an expand action followed by a
  collapse action the network is at the end of the queue with its flag \<open>False\<close>. When
  the queue was empty before the expand action, the next tick, if it returns, has sent
  the creation messages of the network's children, in order and with the network as
  their parent, and, if it completed without raising, has set the flag back to \<open>True\<close>.
\<close>

theorem collapse_keeps_pending_expansion:
  assumes reg: "map_of (uids st) u = Some (Network n)"
    and fname: "filename V = Some f"
  shows "act_collapse V (JStr u) st =
           (Inr (),
            st\<lparr>config := (config st)(Network n := (config st (Network n))\<lparr>expanded := False\<rparr>),
               files := (files st)(f @ ''.cfg'' \<mapsto>
                 dumps ((config st)(Network n := (config st (Network n))\<lparr>expanded := False\<rparr>))
                   (uids st))\<rparr>) \<and>
         SetExpanded u False \<in>
           set (dumps ((config st)(Network n := (config st (Network n))\<lparr>expanded := False\<rparr>))
                  (uids st)) \<and>
         (\<exists>s1 s2 ls.
            act_expand V (JStr u) st = (Inr (), s1) \<and>
            act_collapse V (JStr u) s1 = (Inr (), s2) \<and>
            to_be_expanded s2 = to_be_expanded st @ [Network n] \<and>
            \<not> expanded (config s2 (Network n)) \<and>
            files s2 (f @ ''.cfg'') = Some ls \<and> SetExpanded u False \<in> set ls \<and>
            (to_be_expanded st = [] \<longrightarrow>
               (\<forall>r s3. update_client V s2 = Some (r, s3) \<longrightarrow>
                  (\<exists>ms rest. client s3 = client st @ ms @ rest \<and>
                     map m_uid ms = map (get_uid V) (children V n) \<and>
                     list_all (\<lambda>m. is_CreateObject m \<and>
                        m_parent m = (if n = model V then None else Some (get_uid V (Network n))))
                       ms) \<and>
                  (r = Inr () \<longrightarrow> expanded (config s3 (Network n))))))"
proof -
  let ?s1 = "snd (act_expand V (JStr u) st)"
  let ?s2 = "snd (act_collapse V (JStr u) ?s1)"
  let ?off = "\<lambda>s. (config s)(Network n := (config s (Network n))\<lparr>expanded := False\<rparr>)"
  have col: "act_collapse V (JStr u) st =
           (Inr (),
            st\<lparr>config := (config st)(Network n := (config st (Network n))\<lparr>expanded := False\<rparr>),
               files := (files st)(f @ ''.cfg'' \<mapsto>
                 dumps ((config st)(Network n := (config st (Network n))\<lparr>expanded := False\<rparr>))
                   (uids st))\<rparr>)"
    using reg fname by (simp add: act_collapse_def save_config_def)
  have line: "SetExpanded u False \<in> set (dumps (?off s) (uids st))" for s
    using registered_flag_is_dumped[OF reg, of "?off s"] by simp
  have e1: "act_expand V (JStr u) st = (Inr (), ?s1)"
    using reg fname by (simp add: act_expand_def save_config_def Let_def)
  have s1: "uids ?s1 = uids st" "to_be_expanded ?s1 = to_be_expanded st @ [Network n]"
    "client ?s1 = client st"
    using reg fname by (simp_all add: act_expand_def save_config_def Let_def)
  have e2: "act_collapse V (JStr u) ?s1 = (Inr (), ?s2)"
    using reg fname s1 by (simp add: act_collapse_def save_config_def)
  have s2: "to_be_expanded ?s2 = to_be_expanded st @ [Network n]"
    "\<not> expanded (config ?s2 (Network n))" "client ?s2 = client st"
    using reg fname s1 by (simp_all add: act_collapse_def save_config_def)
  have fl: "files ?s2 (f @ ''.cfg'') = Some (dumps (?off ?s1) (uids st))"
    using reg fname s1 by (simp add: act_collapse_def save_config_def)
  have tick: "to_be_expanded st = [] \<longrightarrow>
               (\<forall>r s3. update_client V ?s2 = Some (r, s3) \<longrightarrow>
                  (\<exists>ms rest. client s3 = client st @ ms @ rest \<and>
                     map m_uid ms = map (get_uid V) (children V n) \<and>
                     list_all (\<lambda>m. is_CreateObject m \<and>
                        m_parent m = (if n = model V then None else Some (get_uid V (Network n))))
                       ms) \<and>
                  (r = Inr () \<longrightarrow> expanded (config s3 (Network n))))"
  proof (intro impI allI)
    fix r s3
    assume em: "to_be_expanded st = []" and t: "update_client V ?s2 = Some (r, s3)"
    from em s2 have q: "to_be_expanded ?s2 = [Network n]" by simp
    from tick_sends_children[OF q t] s2(3)
    show "(\<exists>ms rest. client s3 = client st @ ms @ rest \<and>
                     map m_uid ms = map (get_uid V) (children V n) \<and>
                     list_all (\<lambda>m. is_CreateObject m \<and>
                        m_parent m = (if n = model V then None else Some (get_uid V (Network n))))
                       ms) \<and>
                  (r = Inr () \<longrightarrow> expanded (config s3 (Network n)))"
      by simp
  qed
  have ex: "\<exists>s1 s2 ls.
            act_expand V (JStr u) st = (Inr (), s1) \<and>
            act_collapse V (JStr u) s1 = (Inr (), s2) \<and>
            to_be_expanded s2 = to_be_expanded st @ [Network n] \<and>
            \<not> expanded (config s2 (Network n)) \<and>
            files s2 (f @ ''.cfg'') = Some ls \<and> SetExpanded u False \<in> set ls \<and>
            (to_be_expanded st = [] \<longrightarrow>
               (\<forall>r s3. update_client V s2 = Some (r, s3) \<longrightarrow>
                  (\<exists>ms rest. client s3 = client st @ ms @ rest \<and>
                     map m_uid ms = map (get_uid V) (children V n) \<and>
                     list_all (\<lambda>m. is_CreateObject m \<and>
                        m_parent m = (if n = model V then None else Some (get_uid V (Network n))))
                       ms) \<and>
                  (r = Inr () \<longrightarrow> expanded (config s3 (Network n)))))"
    by (rule exI[of _ ?s1], rule exI[of _ ?s2], rule exI[of _ "dumps (?off ?s1) (uids st)"])
       (intro conjI e1 e2 s2(1) s2(2) fl line tick)
  from col line[of st] ex show ?thesis by (intro conjI)
qed

theorem collapse_keeps_pending_expansion_witness:
  "\<exists>s1 s2 s3 ms rest ls.
     act_expand sample_viz (JStr ''net4'') (first_tick sample_viz) = (Inr (), s1) \<and>
     act_collapse sample_viz (JStr ''net4'') s1 = (Inr (), s2) \<and>
     \<not> expanded (config s2 (Network 4)) \<and>
     files s2 (''m.py'' @ ''.cfg'') = Some ls \<and> SetExpanded ''net4'' False \<in> set ls \<and>
     update_client sample_viz s2 = Some (Inr (), s3) \<and>
     client s3 = client (first_tick sample_viz) @ ms @ rest \<and>
     map m_uid ms = [''ens5''] \<and>
     expanded (config s3 (Network 4))"
proof -
  let ?A = "first_tick sample_viz"
  have reg: "map_of (uids ?A) ''net4'' = Some (Network 4)"
    by (simp add: sample_defs run_defs)
  have fname: "filename sample_viz = Some ''m.py''"
    by (simp add: sample_defs)
  have em: "to_be_expanded ?A = []"
    by (simp add: sample_defs run_defs)
  have ch: "map (get_uid sample_viz) (children sample_viz 4) = [''ens5'']"
    by (simp add: children_def sample_defs)
  from collapse_keeps_pending_expansion[OF reg fname] obtain s1 s2 ls where
    a: "act_expand sample_viz (JStr ''net4'') ?A = (Inr (), s1)"
       "act_collapse sample_viz (JStr ''net4'') s1 = (Inr (), s2)"
       "\<not> expanded (config s2 (Network 4))"
       "files s2 (''m.py'' @ ''.cfg'') = Some ls" "SetExpanded ''net4'' False \<in> set ls" and
    t: "to_be_expanded ?A = [] \<longrightarrow>
               (\<forall>r s3. update_client sample_viz s2 = Some (r, s3) \<longrightarrow>
                  (\<exists>ms rest. client s3 = client ?A @ ms @ rest \<and>
                     map m_uid ms = map (get_uid sample_viz) (children sample_viz 4) \<and>
                     list_all (\<lambda>m. is_CreateObject m \<and>
                        m_parent m = (if 4 = model sample_viz then None
                                      else Some (get_uid sample_viz (Network 4))))
                       ms) \<and>
                  (r = Inr () \<longrightarrow> expanded (config s3 (Network 4))))"
    by blast
  have s2: "s2 = snd (act_collapse sample_viz (JStr ''net4'')
                   (snd (act_expand sample_viz (JStr ''net4'') ?A)))"
    using a by simp
  have run: "update_client sample_viz s2 = Some (Inr (), snd (the (update_client sample_viz s2)))"
    unfolding s2
    by (simp add: sample_defs run_defs act_expand_def act_collapse_def)
  then obtain s3 where r3: "update_client sample_viz s2 = Some (Inr (), s3)" ..
  from t[rule_format, OF em r3] obtain ms rest where
    m: "client s3 = client ?A @ ms @ rest"
       "map m_uid ms = map (get_uid sample_viz) (children sample_viz 4)" and
    ex: "expanded (config s3 (Network 4))"
    by blast
  from m(2) ch have m2: "map m_uid ms = [''ens5'']" by (rule trans)
  show ?thesis
    by (rule exI[of _ s1], rule exI[of _ s2], rule exI[of _ s3], rule exI[of _ ms],
        rule exI[of _ rest], rule exI[of _ ls])
       (intro conjI a r3 m(1) m2 ex)
qed

subsection \<open>Writing the store and reading it back\<close>

text \<open>
  C7. The round trip fails in the code. A pan action on a fresh session of the sample
  model sets the position of the root and calls \<open>save_config\<close>; the root is not a value
  of \<open>uids\<close>, so \<open>dumps\<close> writes no line for it, and the store that \<open>find_config\<close>
  reads back from the file is the empty one, in which the root has no position.
\<close>

theorem pan_is_lost_on_reload:
  "fst (find_config sample_viz
          (files (snd (act_pan sample_viz (JNum 3) (JNum 4) (sample_start sample_viz))))
          Map.empty) = Inr Config \<and>
   pos (config (snd (act_pan sample_viz (JNum 3) (JNum 4) (sample_start sample_viz)))
          (Network 0)) = Some (JNum 3, JNum 4) \<and>
   pos (Config (Network 0)) = None"
  by (simp add: sample_defs act_pan_def save_config_def find_config_def dumps_def Let_def)

subsection \<open>The work queue of the parent index\<close>





text \<open>Every tick and every inbound message leads from a state of the session to one.\<close>

lemma session_create_connection:
  assumes "session V st" and "create_connection V c p st = Some (r, st')"
  shows "session V st'"
proof -
  let ?st1 = "st\<lparr>uids := AList.update (''conn_'' @ id_str V c) (Connection c) (uids st)\<rparr>"
  have s1: "session V ?st1" by (rule session.other[OF assms(1)]) simp_all
  from assms(2) obtain r1 s2 where
    g1: "get_parents V (get_uid V (pre_obj (conns V c))) ?st1 = Some (r1, s2)"
    by (auto simp: create_connection_def Let_def split: option.splits)
  have s2: "session V s2" by (rule session.resolved[OF s1 g1])
  show ?thesis
  proof (cases r1)
    case (Inl e)
    with assms(2) g1 have "st' = s2" by (simp add: create_connection_def Let_def)
    with s2 show ?thesis by simp
  next
    case (Inr pres)
    with assms(2) g1 obtain r2 s3 where
      g2: "get_parents V (get_uid V (post_obj (conns V c))) s2 = Some (r2, s3)"
      by (auto simp: create_connection_def Let_def split: option.splits)
    have s3: "session V s3" by (rule session.resolved[OF s2 g2])
    show ?thesis
    proof (cases r2)
      case (Inl e)
      with assms(2) g1 g2 Inr have "st' = s3" by (simp add: create_connection_def Let_def)
      with s3 show ?thesis by simp
    next
      case posts: (Inr posts)
      with assms(2) g1 g2 Inr have
        "st' = s3\<lparr>client := client s3 @
           [CreateConnection (''conn_'' @ id_str V c) (butlast pres) (butlast posts) p]\<rparr>"
        by (simp add: create_connection_def Let_def)
      then show ?thesis using session.other[OF s3, of st'] by simp
    qed
  qed
qed

lemma session_create_connections:
  "session V st \<Longrightarrow> create_connections V cs p st = Some (r, st') \<Longrightarrow> session V st'"
proof (induction cs arbitrary: st)
  case Nil
  then show ?case by simp
next
  case (Cons c cs)
  from Cons.prems(2) obtain r1 s1 where c1: "create_connection V c p st = Some (r1, s1)"
    by (auto split: option.splits)
  note s1 = session_create_connection[OF Cons.prems(1) c1]
  show ?case
  proof (cases r1)
    case (Inl e)
    with Cons.prems(2) c1 s1 show ?thesis by simp
  next
    case (Inr u)
    with Cons.prems(2) c1 have "create_connections V cs p s1 = Some (r, st')" by simp
    from Cons.IH[OF s1 this] show ?thesis .
  qed
qed

lemma objects_created_index:
  "parents (objects_created V c st) = parents st \<and>
   networks_to_search (objects_created V c st) = networks_to_search st \<and>
   searched (objects_created V c st) = searched st"
  by (simp add: objects_created_def Let_def create_objects_frame)

lemma session_update_client:
  assumes "session V st" and "update_client V st = Some (r, st')"
  shows "session V st'"
proof (cases "to_be_expanded st")
  case Nil
  with assms show ?thesis by (simp add: update_client_def)
next
  case (Cons network rest)
  let ?s = "st\<lparr>to_be_expanded := rest\<rparr>"
  have s: "session V ?s" by (rule session.other[OF assms(1)]) simp_all
  from assms(2) Cons obtain r' s' where
    e: "expand_network V network ?s = Some (r', s')" and
    st': "st' = s' \<or> st' = send_pan_and_zoom V s'"
    by (auto simp: update_client_def split: option.splits sum.splits if_splits)
  have "session V s'"
  proof (cases network)
    case (Network c)
    from expand_network_split[OF e[unfolded Network]] obtain s4 where
      c: "create_connections V (connections (nets V c))
            (if c = model V then None else Some (get_uid V (Network c)))
            (objects_created V c ?s) = Some (r', s4)" and
      s': "s' = (if r' = Inr () then
                   s4\<lparr>config := (config s4)(Network c := (config s4 (Network c))\<lparr>expanded := True\<rparr>)\<rparr>
                 else s4)" by blast
    have "session V (objects_created V c ?s)"
      by (rule session.other[OF s]) (simp_all add: objects_created_index)
    from session_create_connections[OF this c] have s4: "session V s4" .
    show ?thesis
      unfolding s' using s4 session.other[OF s4, of
          "s4\<lparr>config := (config s4)(Network c := (config s4 (Network c))\<lparr>expanded := True\<rparr>)\<rparr>"]
      by simp
  qed (use e s in auto)
  then show ?thesis
    using st' session.other[of V s' "send_pan_and_zoom V s'"]
    by (auto simp: send_pan_and_zoom_def Let_def)
qed

lemma save_config_index:
  "parents (snd (save_config V st)) = parents st \<and>
   networks_to_search (snd (save_config V st)) = networks_to_search st \<and>
   searched (snd (save_config V st)) = searched st"
  by (simp add: save_config_def split: option.splits)

lemma same_index_refl: "same_index st st"
  by (simp add: same_index_def)

lemma act_expand_index: "same_index st (snd (act_expand V uid st))"
  by (simp add: same_index_def act_expand_def Let_def save_config_index split: sum.splits)

lemma act_collapse_index: "same_index st (snd (act_collapse V uid st))"
  by (simp add: same_index_def act_collapse_def save_config_index split: sum.splits)

lemma act_pan_index: "same_index st (snd (act_pan V x y st))"
  by (simp add: same_index_def act_pan_def Let_def save_config_index split: sum.splits)

lemma act_zoom_index: "same_index st (snd (act_zoom V s x y st))"
  by (simp add: same_index_def act_zoom_def Let_def save_config_index split: sum.splits)

lemma act_pos_index: "same_index st (snd (act_pos V uid x y st))"
  by (simp add: same_index_def act_pos_def save_config_index split: sum.splits)

lemma act_size_index: "same_index st (snd (act_size V uid w h st))"
  by (simp add: same_index_def act_size_def save_config_index split: sum.splits)

lemmas act_index =
  same_index_refl act_expand_index act_collapse_index act_pan_index act_zoom_index
  act_pos_index act_size_index

lemma if_index:
  "same_index st (snd A) \<Longrightarrow> same_index st (snd B) \<Longrightarrow>
     same_index st (snd (if c then A else B))"
  by simp

lemma args1_index:
  assumes "\<And>a. same_index st (snd (f a))"
  shows "same_index st (snd (case k of Some [a] \<Rightarrow> f a | _ \<Rightarrow> (Inl TypeError, st)))"
  by (simp add: assms same_index_refl split: option.split list.split)

lemma args2_index:
  assumes "\<And>a b. same_index st (snd (f a b))"
  shows "same_index st (snd (case k of Some [a, b] \<Rightarrow> f a b | _ \<Rightarrow> (Inl TypeError, st)))"
  by (simp add: assms same_index_refl split: option.split list.split)

lemma args3_index:
  assumes "\<And>a b c. same_index st (snd (f a b c))"
  shows "same_index st
           (snd (case k of Some [a, b, c] \<Rightarrow> f a b c | _ \<Rightarrow> (Inl TypeError, st)))"
  by (simp add: assms same_index_refl split: option.split list.split)

lemma dispatch_index: "same_index st (snd (dispatch V a info st))"
  unfolding dispatch_def
  by (intro if_index args1_index args2_index args3_index act_index) (simp add: same_index_refl)

lemma message_index: "same_index st (snd (message V msg st))"
proof (cases "json_loads V msg")
  case None
  then show ?thesis by (simp add: message_def same_index_def)
next
  case (Some v)
  show ?thesis
  proof (cases v)
    case (JObj info)
    show ?thesis
    proof (cases "map_of info ''act''")
      case None
      then show ?thesis using Some JObj by (simp add: message_def same_index_def)
    next
      case act: (Some a)
      show ?thesis
      proof (cases a)
        case (JStr action)
        then show ?thesis
          using Some JObj act by (simp add: message_def dispatch_index)
      qed (use Some JObj act in \<open>simp_all add: message_def same_index_def\<close>)
    qed
  qed (use Some in \<open>simp_all add: message_def same_index_def\<close>)
qed

lemma session_message:
  assumes "session V st"
  shows "session V (snd (message V msg st))"
  using message_index[of st V msg]
  by (intro session.other[OF assms]) (simp_all add: same_index_def)





subsection \<open>Endpoint chains of a connection\<close>

lemma fold_same_parent:
  "fold (\<lambda>n p. p(f n \<mapsto> v)) xs ps u = (if u \<in> f ` set xs then Some v else ps u)"
  by (induction xs arbitrary: ps) auto

lemma index_children_apply:
  "index_children V net ps u =
     (if u \<in> get_uid V ` set (children V net) then Some (get_uid V (Network net)) else ps u)"
  by (auto simp: index_children_def Let_def fold_same_parent children_def image_Un)

lemma index_of_hierarchy_step:
  assumes inv: "index_of_hierarchy V st" and q: "networks_to_search st = net # rest"
  shows "index_of_hierarchy V
           (st\<lparr>parents := index_children V net (parents st),
               networks_to_search := rest @ networks (nets V net),
               searched := searched st @ [net]\<rparr>)"
proof -
  let ?ps = "index_children V net (parents st)"
  have 1: "\<forall>u p. ?ps u = Some p \<longrightarrow>
             (\<exists>n \<in> set (searched st @ [net]). p = get_uid V (Network n) \<and>
                                          u \<in> get_uid V ` set (children V n))"
  proof (intro allI impI)
    fix u p assume a: "?ps u = Some p"
    show "\<exists>n \<in> set (searched st @ [net]). p = get_uid V (Network n) \<and>
                                        u \<in> get_uid V ` set (children V n)"
    proof (cases "u \<in> get_uid V ` set (children V net)")
      case True
      with a have "p = get_uid V (Network net)" by (simp add: index_children_apply)
      with True show ?thesis by auto
    next
      case False
      with a have "parents st u = Some p" by (simp add: index_children_apply)
      with inv obtain n where "n \<in> set (searched st)" "p = get_uid V (Network n)"
        "u \<in> get_uid V ` set (children V n)"
        unfolding index_of_hierarchy_def by blast
      then show ?thesis by auto
    qed
  qed
  have keep: "\<And>u. parents st u \<noteq> None \<Longrightarrow> ?ps u \<noteq> None"
    by (simp add: index_children_apply)
  have 2: "\<forall>n \<in> set ((searched st @ [net]) @ rest @ networks (nets V net)).
             n = model V \<or> ?ps (get_uid V (Network n)) \<noteq> None"
  proof
    fix n assume n: "n \<in> set ((searched st @ [net]) @ rest @ networks (nets V net))"
    show "n = model V \<or> ?ps (get_uid V (Network n)) \<noteq> None"
    proof (cases "n \<in> set (networks (nets V net))")
      case True
      then have "Network n \<in> set (children V net)" by (simp add: children_def)
      then have "get_uid V (Network n) \<in> get_uid V ` set (children V net)" by (rule imageI)
      then show ?thesis by (simp add: index_children_apply)
    next
      case False
      with n q have "n \<in> set (searched st @ networks_to_search st)" by auto
      with inv have "n = model V \<or> parents st (get_uid V (Network n)) \<noteq> None"
        unfolding index_of_hierarchy_def by blast
      with keep show ?thesis by blast
    qed
  qed
  from 1 2 show ?thesis unfolding index_of_hierarchy_def by simp
qed

lemma index_of_hierarchy_search:
  assumes "search_parents V uid st = Some res"
  shows "index_of_hierarchy V st \<longrightarrow> index_of_hierarchy V (snd res)"
  by (rule search_parents.raw_induct[where P = "\<lambda>V uid st res.
        index_of_hierarchy V st \<longrightarrow> index_of_hierarchy V (snd res)", OF _ assms])
     (auto split: if_splits list.splits simp: index_of_hierarchy_step)

lemma index_of_hierarchy_session:
  "session V st \<Longrightarrow> index_of_hierarchy V st"
proof (induction rule: session.induct)
  case (started cfg fs r)
  show ?case by (simp add: index_of_hierarchy_def init_def)
next
  case (resolved st uid res st')
  from resolved.hyps(2) obtain r' where "search_parents V uid st = Some (r', st')"
    by (auto simp: get_parents_def split: option.splits sum.splits)
  from index_of_hierarchy_search[OF this] resolved.IH show ?case by simp
next
  case (other st st')
  then show ?case by (simp add: index_of_hierarchy_def)
qed

lemma linked_contained:
  assumes "\<forall>u p. ps u = Some p \<longrightarrow>
             (\<exists>n. p = get_uid V (Network n) \<and> u \<in> get_uid V ` set (children V n))"
  shows "linked ps xs \<Longrightarrow> contained V xs"
  using assms by (induction ps xs rule: linked.induct) auto

lemma linked_last_parent:
  "linked ps xs \<Longrightarrow> 2 \<le> length xs \<Longrightarrow> \<exists>x. ps x = Some (last xs)"
proof (induction ps xs rule: linked.induct)
  case (3 ps x y xs)
  then show ?case by (cases xs) auto
qed simp_all

lemma linked_butlast_indexed:
  "linked ps xs \<Longrightarrow> \<forall>x \<in> set (butlast xs). ps x \<noteq> None"
  by (induction ps xs rule: linked.induct) auto

lemma get_parents_root:
  assumes se: "session V st" and g: "get_parents V uid st = Some (Inr chain, st')"
  shows "contained V chain \<and> last chain = get_uid V (Network (model V)) \<and>
         get_uid V (Network (model V)) \<notin> set (butlast chain)"
proof -
  have "session V st'" by (rule session.resolved[OF se g])
  then have inv: "index_of_hierarchy V st'" by (rule index_of_hierarchy_session)
  from get_parents_chain[OF g] have
    l: "linked (parents st') chain" and n: "2 \<le> length chain" and
    t: "parents st' (last chain) = None" by simp_all
  have w: "\<forall>u p. parents st' u = Some p \<longrightarrow>
             (\<exists>n. p = get_uid V (Network n) \<and> u \<in> get_uid V ` set (children V n))"
    using inv unfolding index_of_hierarchy_def by blast
  have c: "contained V chain" by (rule linked_contained[OF w l])
  from linked_last_parent[OF l n] obtain x where "parents st' x = Some (last chain)" ..
  with inv obtain m where m: "m \<in> set (searched st')" "last chain = get_uid V (Network m)"
    unfolding index_of_hierarchy_def by blast
  with inv have "m = model V \<or> parents st' (get_uid V (Network m)) \<noteq> None"
    unfolding index_of_hierarchy_def by simp
  with m t have r: "last chain = get_uid V (Network (model V))" by auto
  from linked_butlast_indexed[OF l] t r
  have "get_uid V (Network (model V)) \<notin> set (butlast chain)" by auto
  with c r show ?thesis by simp
qed

text \<open>
  C1, as the specification states it, fails. On the first tick of the sample model the
  connection from node 2 to ensemble 1 is sent with the chains \<open>[''node2'']\<close> and
  \<open>[''ens1'']\<close>: each holds the uid of the endpoint itself, and what \<open>[:-1]\<close> dropped
  is the uid of the root.
\<close>

theorem connection_chain_counterexample:
  "map_option (\<lambda>(r, s). (r, client s ! 3))
     (update_client sample_viz (sample_start sample_viz))
   = Some (Inr (), CreateConnection ''conn_3'' [''node2''] [''ens1''] None)"
  by (simp add: sample_defs run_defs)

text \<open>
  C1, amended. Whenever \<open>create_connection\<close>, in a state of a session, sends its
  message, the \<open>pre\<close> and \<open>post\<close> fields are the results of \<open>get_parents\<close> for the uids
  of the two endpoints without their last element. Each result starts with the uid of the
  endpoint; every element of it is followed by the uid of a network that holds an object
  with that uid, so the uids of the endpoint's containers follow from the nearest
  outward; and its last element, the one dropped, is the uid of the root. So each chain
  sent is not empty, starts with the endpoint's own uid and leaves out the root's.
\<close>

theorem connection_chain:
  assumes "session V st"
    and "create_connection V c parent st = Some (Inr (), st')"
  shows "\<exists>pres posts s1.
           get_parents V (get_uid V (pre_obj (conns V c)))
             (st\<lparr>uids := AList.update (''conn_'' @ id_str V c) (Connection c) (uids st)\<rparr>)
             = Some (Inr pres, s1) \<and>
           get_parents V (get_uid V (post_obj (conns V c))) s1
             = Some (Inr posts, st'\<lparr>client := client s1\<rparr>) \<and>
           client st' = client st @
             [CreateConnection (''conn_'' @ id_str V c) (butlast pres) (butlast posts) parent] \<and>
           butlast pres \<noteq> [] \<and> hd (butlast pres) = get_uid V (pre_obj (conns V c)) \<and>
           contained V pres \<and> last pres = get_uid V (Network (model V)) \<and>
           get_uid V (Network (model V)) \<notin> set (butlast pres) \<and>
           butlast posts \<noteq> [] \<and> hd (butlast posts) = get_uid V (post_obj (conns V c)) \<and>
           contained V posts \<and> last posts = get_uid V (Network (model V)) \<and>
           get_uid V (Network (model V)) \<notin> set (butlast posts)"
proof -
  let ?st1 = "st\<lparr>uids := AList.update (''conn_'' @ id_str V c) (Connection c) (uids st)\<rparr>"
  from assms(2) obtain pres s1 posts s2 where
    g1: "get_parents V (get_uid V (pre_obj (conns V c))) ?st1 = Some (Inr pres, s1)" and
    g2: "get_parents V (get_uid V (post_obj (conns V c))) s1 = Some (Inr posts, s2)" and
    st': "st' = s2\<lparr>client := client s2 @
             [CreateConnection (''conn_'' @ id_str V c) (butlast pres) (butlast posts) parent]\<rparr>"
    by (auto simp: create_connection_def Let_def split: option.splits sum.splits)
  have se1: "session V ?st1" by (rule session.other[OF assms(1)]) simp_all
  have se2: "session V s1" by (rule session.resolved[OF se1 g1])
  note c1 = get_parents_chain[OF g1] and c2 = get_parents_chain[OF g2]
  note r1 = get_parents_root[OF se1 g1] and r2 = get_parents_root[OF se2 g2]
  note f1 = get_parents_frame[OF g1] and f2 = get_parents_frame[OF g2]
  have b1: "butlast pres \<noteq> [] \<and> hd (butlast pres) = hd pres"
    using c1 by (cases pres; cases "tl pres") auto
  have b2: "butlast posts \<noteq> [] \<and> hd (butlast posts) = hd posts"
    using c2 by (cases posts; cases "tl posts") auto
  have e: "st'\<lparr>client := client s1\<rparr> = s2" using st' f2 by simp
  show ?thesis
    apply (rule exI[of _ pres], rule exI[of _ posts], rule exI[of _ s1])
    using g1 g2 c1 c2 r1 r2 f1 f2 b1 b2 e st' by simp
qed

theorem connection_chain_witness:
  "\<exists>st' pres posts.
     create_connection sample_viz 6 (Some ''net4'') (sample_start sample_viz)
       = Some (Inr (), st') \<and>
     client st' = [CreateConnection ''conn_6'' [''ens5'', ''net4''] [''ens1''] (Some ''net4'')] \<and>
     client st' = client (sample_start sample_viz) @
       [CreateConnection (''conn_'' @ id_str sample_viz 6) (butlast pres) (butlast posts)
          (Some ''net4'')] \<and>
     contained sample_viz pres \<and>
     last pres = get_uid sample_viz (Network (model sample_viz))"
proof -
  let ?X = "create_connection sample_viz 6 (Some ''net4'') (sample_start sample_viz)"
  have se: "session sample_viz (sample_start sample_viz)"
    by (simp add: sample_start_def session.started)
  have run: "?X = Some (Inr (), snd (the ?X))"
    by (simp add: sample_defs run_defs)
  have cl: "client (snd (the ?X)) =
              [CreateConnection ''conn_6'' [''ens5'', ''net4''] [''ens1''] (Some ''net4'')]"
    by (simp add: sample_defs run_defs)
  from connection_chain[OF se run] obtain pres posts where
    p: "client (snd (the ?X)) = client (sample_start sample_viz) @
          [CreateConnection (''conn_'' @ id_str sample_viz 6) (butlast pres) (butlast posts)
             (Some ''net4'')]"
       "contained sample_viz pres"
       "last pres = get_uid sample_viz (Network (model sample_viz))"
    by blast
  show ?thesis
    by (rule exI[of _ "snd (the ?X)"], rule exI[of _ pres], rule exI[of _ posts])
       (intro conjI run cl p)
qed


end
